theory Spec2Isabelle
  imports Main "HOL-Library.Sublist"
begin

section \<open>Python string operations used by the ACME DNS plugin\<close>

text \<open>
  Host names, zone names and TXT values are Python \<^verbatim>\<open>str\<close> values. They are modelled as
  \<^typ>\<open>string\<close>, one \<^typ>\<open>char\<close> per code point (DNS names are ASCII, so every code
  point is below 256).
\<close>

definition endswith :: "string \<Rightarrow> string \<Rightarrow> bool" where
  \<comment> \<open>\<^verbatim>\<open>s.endswith(t)\<close>\<close>
  "endswith s t \<longleftrightarrow> length t \<le> length s \<and> drop (length s - length t) s = t"

definition startswith :: "string \<Rightarrow> string \<Rightarrow> bool" where
  \<comment> \<open>\<^verbatim>\<open>s.startswith(t)\<close>\<close>
  "startswith s t \<longleftrightarrow> take (length t) s = t"

definition count_dot :: "string \<Rightarrow> nat" where
  \<comment> \<open>\<^verbatim>\<open>s.count(".")\<close>\<close>
  "count_dot s = length (filter (\<lambda>c. c = CHR ''.'') s)"

fun split_dot :: "string \<Rightarrow> string list" where
  \<comment> \<open>\<^verbatim>\<open>s.split(".")\<close>: never empty, \<^verbatim>\<open>"".split(".") == [""]\<close>\<close>
  "split_dot [] = [[]]"
| "split_dot (c # cs) =
     (if c = CHR ''.'' then [] # split_dot cs
      else (case split_dot cs of
              [] \<Rightarrow> [[c]]
            | p # ps \<Rightarrow> (c # p) # ps))"

fun join_dot :: "string list \<Rightarrow> string" where
  \<comment> \<open>\<^verbatim>\<open>".".join(parts)\<close>\<close>
  "join_dot [] = []"
| "join_dot [p] = p"
| "join_dot (p # q # ps) = p @ ''.'' @ join_dot (q # ps)"

definition slice_to_neg :: "nat \<Rightarrow> 'a list \<Rightarrow> 'a list" where
  \<comment> \<open>\<^verbatim>\<open>xs[:-k]\<close>; for \<^verbatim>\<open>k == 0\<close> Python reads \<^verbatim>\<open>xs[:0]\<close>, the empty list\<close>
  "slice_to_neg k xs = (if k = 0 then [] else take (length xs - k) xs)"

definition lower_char :: "char \<Rightarrow> char" where
  \<comment> \<open>\<^verbatim>\<open>str.lower\<close> on one code point below 256: A-Z and the Latin-1 capitals
      U+00C0..U+00DE (without the multiplication sign U+00D7) move up by 32\<close>
  "lower_char c =
     (let n = (of_char c :: nat)
      in if (65 \<le> n \<and> n \<le> 90) \<or> (192 \<le> n \<and> n \<le> 222 \<and> n \<noteq> 215)
         then char_of (n + 32) else c)"

definition lower :: "string \<Rightarrow> string" where
  \<comment> \<open>\<^verbatim>\<open>s.lower()\<close>\<close>
  "lower s = map lower_char s"

section \<open>Errors and observable effects\<close>

datatype error =
    ZoneNotFound string
    \<comment> \<open>\<^verbatim>\<open>Exception("No UltraDNS zone found for domain: ...")\<close>\<close>
  | HTTPError nat
    \<comment> \<open>raised by \<^verbatim>\<open>resp.raise_for_status()\<close>, or any failure of the request itself\<close>
  | NoDnsChallenges
    \<comment> \<open>\<^verbatim>\<open>Exception("Unable to determine DNS challenges from authorizations")\<close>\<close>
  | NoDnsProviders string
    \<comment> \<open>\<^verbatim>\<open>Exception("No DNS providers found for domain: ...")\<close>\<close>
  | UnknownProvider string
  | JSONDecodeError
  | TypeError
    \<comment> \<open>iterating over \<^verbatim>\<open>None\<close>\<close>
  | IndexError
    \<comment> \<open>reading the first element of an empty list\<close>
  | NameError
    \<comment> \<open>reading a loop variable after a loop that never ran\<close>
  | FailedVerification
    \<comment> \<open>\<^verbatim>\<open>ValueError("Failed verification")\<close>\<close>
  | PluginError string
    \<comment> \<open>any exception raised inside a DNS provider plugin or the ACME client\<close>

type_synonym rrset_path = "string \<times> string"
  \<comment> \<open>zone name and node name of \<^verbatim>\<open>/v2/zones/{zone}/rrsets/TXT/{node}\<close>
      (record type 16 is TXT)\<close>

type_synonym change_id = "string \<times> string"
  \<comment> \<open>\<^verbatim>\<open>(fqdn, token)\<close>\<close>

datatype request =
    ListZones
  | GetRRSet rrset_path
  | DeleteRRSet rrset_path
  | PostRRSet rrset_path "string list"

datatype plugin = Cloudflare | Dyn | Route53 | Ultradns | Powerdns

datatype plugin_call =
    CreateTxtRecord plugin string string "string option"
    \<comment> \<open>host, token, account number\<close>
  | DeleteTxtRecord plugin "change_id list" "string option" string string
    \<comment> \<open>change id, account number, host, token\<close>
  | WaitForDnsChange plugin change_id "string option"

datatype event =
    HttpRequest request
  | DnsQuery string string
    \<comment> \<open>name server and queried name\<close>
  | Sleep nat
  | Metric string
  | SentryCapture
  | LogDebug string
  | Call plugin_call
  | AnswerChallenge string

section \<open>ultradns.py\<close>

subsection \<open>The UltraDNS REST service\<close>

text \<open>
  Modelled from the spec: the classes \<^verbatim>\<open>Zone\<close> (ultradns\_zone.py) and \<^verbatim>\<open>Record\<close>
  (ultradns\_record.py) are not part of the sources at hand. A zone carries a
  fully-qualified \<^verbatim>\<open>name\<close> (the trailing dot already removed), an
  \<^verbatim>\<open>authoritative_type\<close> and a \<^verbatim>\<open>status\<close>; a TXT record set is keyed by zone and
  node name and holds a list of values (\<^verbatim>\<open>rdata\<close>), which \<^verbatim>\<open>Record.rdata\<close> exposes.
\<close>

record zone =
  name :: string
  authoritative_type :: string
  status :: string

text \<open>
  The service behind \<^verbatim>\<open>requests.get/post/delete\<close>: the zones of the account in pages,
  the TXT record sets, and \<open>fault\<close>, which makes a request fail whatever the state is
  (authorisation failure, server error, time-out). A healthy service answers 404 for a
  record set that does not exist; a POST creates the record set, adds the values to an
  existing one ("the challenge TXT records that are created will be added under the same
  RRSet"), and is refused when every value is already there ("Record already exists").
  The TTL sent with every POST is the constant 5 and is not stored.
\<close>

record service =
  zone_pages :: "zone list list"
  rrsets :: "rrset_path \<rightharpoonup> string list"
  fault :: "request \<Rightarrow> error option"
  trace :: "event list"

definition emit :: "event list \<Rightarrow> service \<Rightarrow> service" where
  "emit es s = s\<lparr>trace := trace s @ es\<rparr>"

definition ultradns_get_zones :: "service \<Rightarrow> (error + zone list list) \<times> service" where
  \<comment> \<open>\<^verbatim>\<open>_paginate("/v2/zones", "zones")\<close>: one request for the total count, then the pages\<close>
  "ultradns_get_zones s =
     (case fault s ListZones of
        Some e \<Rightarrow> (Inl e, emit [HttpRequest ListZones] s)
      | None \<Rightarrow> (Inr (zone_pages s),
                 emit (replicate (Suc (length (zone_pages s))) (HttpRequest ListZones)) s))"

definition ultradns_get :: "rrset_path \<Rightarrow> service \<Rightarrow> (error + string list) \<times> service" where
  \<comment> \<open>\<^verbatim>\<open>_get(path)\<close> followed by \<^verbatim>\<open>Record(rrsets).rdata\<close>\<close>
  "ultradns_get path s =
     (let s' = emit [HttpRequest (GetRRSet path)] s
      in case fault s (GetRRSet path) of
           Some e \<Rightarrow> (Inl e, s')
         | None \<Rightarrow> (case rrsets s path of
                      None \<Rightarrow> (Inl (HTTPError 404), s')
                    | Some rdata \<Rightarrow> (Inr rdata, s')))"

definition ultradns_delete :: "rrset_path \<Rightarrow> service \<Rightarrow> (error + unit) \<times> service" where
  \<comment> \<open>\<^verbatim>\<open>_delete(path)\<close>\<close>
  "ultradns_delete path s =
     (let s' = emit [HttpRequest (DeleteRRSet path)] s
      in case fault s (DeleteRRSet path) of
           Some e \<Rightarrow> (Inl e, s')
         | None \<Rightarrow> (case rrsets s path of
                      None \<Rightarrow> (Inl (HTTPError 404), s')
                    | Some rdata \<Rightarrow> (Inr (), s'\<lparr>rrsets := (rrsets s)(path := None)\<rparr>)))"

definition ultradns_post :: "rrset_path \<Rightarrow> string list \<Rightarrow> service \<Rightarrow> (error + unit) \<times> service" where
  \<comment> \<open>\<^verbatim>\<open>_post(path, {"ttl": 5, "rdata": rdata})\<close>\<close>
  "ultradns_post path rdata s =
     (let s' = emit [HttpRequest (PostRRSet path rdata)] s
      in case fault s (PostRRSet path rdata) of
           Some e \<Rightarrow> (Inl e, s')
         | None \<Rightarrow> (case rrsets s path of
                      None \<Rightarrow> (Inr (), s'\<lparr>rrsets := (rrsets s)(path \<mapsto> rdata)\<rparr>)
                    | Some old \<Rightarrow>
                        if set rdata \<subseteq> set old then (Inl (HTTPError 400), s')
                        else (Inr (), s'\<lparr>rrsets := (rrsets s)(path \<mapsto>
                                old @ filter (\<lambda>v. v \<notin> set old) rdata)\<rparr>)))"

subsection \<open>Zones\<close>

definition get_zones :: "service \<Rightarrow> (error + string list) \<times> service" where
  "get_zones s =
     (case ultradns_get_zones s of
        (Inl e, s') \<Rightarrow> (Inl e, s')
      | (Inr pages, s') \<Rightarrow>
          (Inr (map name (filter (\<lambda>z. authoritative_type z = ''PRIMARY'' \<and> status z = ''ACTIVE'')
                  (concat pages))), s'))"

fun zone_loop :: "string \<Rightarrow> string list \<Rightarrow> string \<Rightarrow> string" where
  \<comment> \<open>the \<^verbatim>\<open>for z in zones\<close> loop of \<^verbatim>\<open>get_zone_name\<close>, threading \<^verbatim>\<open>zone_name\<close>\<close>
  "zone_loop d [] zone_name = zone_name"
| "zone_loop d (z # zs) zone_name =
     (if endswith d z then
        (if count_dot z > count_dot zone_name then zone_loop d zs z
         else zone_loop d zs zone_name)
      else zone_loop d zs zone_name)"

definition get_zone_name :: "string \<Rightarrow> service \<Rightarrow> (error + string) \<times> service" where
  "get_zone_name d s =
     (case get_zones s of
        (Inl e, s') \<Rightarrow> (Inl e, s')
      | (Inr zones, s') \<Rightarrow>
          (let zone_name = zone_loop d zones ''''
           in if zone_name = [] then
                (Inl (ZoneNotFound d), emit [Metric ''ultradns_no_zone_name''] s')
              else (Inr zone_name, s')))"

definition owns :: "string \<Rightarrow> string \<Rightarrow> bool" where
  \<comment> \<open>the test \<^verbatim>\<open>name == domain or domain.endswith("." + name)\<close> of
      \<^verbatim>\<open>autodetect_dns_providers\<close>\<close>
  "owns nm d \<longleftrightarrow> nm = d \<or> endswith d (''.'' @ nm)"

subsection \<open>TXT records\<close>

definition create_txt_record ::
  "string \<Rightarrow> string \<Rightarrow> string option \<Rightarrow> service \<Rightarrow> (error + change_id) \<times> service" where
  \<comment> \<open>every exception of the POST is caught and logged; the account number is not used\<close>
  "create_txt_record d token account_number s =
     (case get_zone_name d s of
        (Inl e, s1) \<Rightarrow> (Inl e, s1)
      | (Inr zone_name, s1) \<Rightarrow>
          (let zone_parts = length (split_dot zone_name);
               node_name = join_dot (slice_to_neg zone_parts (split_dot d));
               fqdn = node_name @ ''.'' @ zone_name;
               path = (zone_name, node_name)
           in case ultradns_post path [token] s1 of
                (Inr u, s2) \<Rightarrow> (Inr (fqdn, token), emit [LogDebug ''TXT record created''] s2)
              | (Inl e, s2) \<Rightarrow> (Inr (fqdn, token), emit [LogDebug ''Unable to add record''] s2)))"

definition delete_txt_record ::
  "change_id list \<Rightarrow> string option \<Rightarrow> string \<Rightarrow> string \<Rightarrow> service \<Rightarrow> (error + unit) \<times> service" where
  \<comment> \<open>\<^verbatim>\<open>record.rdata.remove(token)\<close> removes the first occurrence and raises
      \<^verbatim>\<open>ValueError\<close> when there is none; neither the change id nor the account number
      is used\<close>
  "delete_txt_record cid account_number d token s =
     (if d = [] then (Inr (), emit [LogDebug ''delete_txt_record: No domain passed''] s)
      else
        case get_zone_name d s of
          (Inl e, s1) \<Rightarrow> (Inl e, s1)
        | (Inr zone_name, s1) \<Rightarrow>
            (let zone_parts = length (split_dot zone_name);
                 node_name = join_dot (slice_to_neg zone_parts (split_dot d));
                 path = (zone_name, node_name)
             in case ultradns_get path s1 of
                  (Inl e, s2) \<Rightarrow> (Inr (), emit [Metric ''delete_txt_record_geterror''] s2)
                | (Inr rdata, s2) \<Rightarrow>
                    if token \<notin> set rdata then (Inr (), emit [LogDebug ''Token not found''] s2)
                    else
                      (let rdata' = remove1 token rdata
                       in case ultradns_delete path s2 of
                            (Inl e, s3) \<Rightarrow> (Inl e, s3)
                          | (Inr u, s3) \<Rightarrow>
                              if length rdata' > 0 then ultradns_post path rdata' s3
                              else (Inr (), s3))))"

subsection \<open>Propagation polling\<close>

datatype dns_answer = DNSException | Answer "string list"

type_synonym resolver = "string \<Rightarrow> string \<Rightarrow> dns_answer"
  \<comment> \<open>what the name server (first argument) answers to a TXT query for a name; the
      strings are the decoded values of the answer\<close>

definition has_dns_propagated :: "resolver \<Rightarrow> string \<Rightarrow> string \<Rightarrow> string \<Rightarrow> bool \<times> event list" where
  \<comment> \<open>\<^verbatim>\<open>_has_dns_propagated(name, token, domain)\<close>, \<^verbatim>\<open>domain\<close> being the name server\<close>
  "has_dns_propagated r nm token ns =
     (case r ns nm of
        DNSException \<Rightarrow> (False, [DnsQuery ns nm, Metric ''has_dns_propagated_fail''])
      | Answer txt_records \<Rightarrow>
          if token \<in> set txt_records
          then (True, [DnsQuery ns nm, Metric ''has_dns_propagated_success''])
          else (False, [DnsQuery ns nm]))"

definition number_of_attempts :: nat where
  "number_of_attempts = 20"

text \<open>
  The two loops of \<^verbatim>\<open>wait_for_dns_change\<close> over \<^verbatim>\<open>range(0, number_of_attempts)\<close>. The
  argument \<open>dns\<close> gives the resolver as it answers at each attempt of the running loop;
  \<open>stat\<close> is the local variable \<^verbatim>\<open>status\<close>, assigned in every iteration.
\<close>

fun authoritative_loop ::
  "(nat \<Rightarrow> resolver) \<Rightarrow> string \<Rightarrow> string \<Rightarrow> nat list \<Rightarrow> bool \<Rightarrow> bool \<times> event list" where
  "authoritative_loop dns fqdn token [] stat = (stat, [])"
| "authoritative_loop dns fqdn token (a # as) stat =
     (case has_dns_propagated (dns a) fqdn token ''156.154.64.154'' of
        (st, ev) \<Rightarrow>
          if st then (st, ev @ [LogDebug ''Record status'', Sleep 10])
          else (case authoritative_loop dns fqdn token as st of
                  (st', ev') \<Rightarrow> (st', ev @ [LogDebug ''Record status'', Sleep 10] @ ev')))"

fun public_loop ::
  "(nat \<Rightarrow> resolver) \<Rightarrow> string \<Rightarrow> string \<Rightarrow> nat list \<Rightarrow> bool \<Rightarrow> bool \<times> event list" where
  "public_loop dns fqdn token [] stat = (stat, [])"
| "public_loop dns fqdn token (a # as) stat =
     (case has_dns_propagated (dns a) fqdn token ''8.8.8.8'' of
        (st, ev) \<Rightarrow>
          if st then (st, ev @ [LogDebug ''Record status'', Metric ''wait_for_dns_change_success''])
          else (case public_loop dns fqdn token as st of
                  (st', ev') \<Rightarrow> (st', ev @ [LogDebug ''Record status'', Sleep 10] @ ev')))"

definition wait_for_dns_change ::
  "(nat \<Rightarrow> resolver) \<Rightarrow> (nat \<Rightarrow> resolver) \<Rightarrow> change_id \<Rightarrow> string option \<Rightarrow> (error + unit) \<times> event list" where
  \<comment> \<open>\<open>dns1\<close> and \<open>dns2\<close> are the resolvers during the first and the second loop; the
      function ends with a bare \<^verbatim>\<open>return\<close> on every path\<close>
  "wait_for_dns_change dns1 dns2 cid account_number =
     (case cid of (fqdn, token) \<Rightarrow>
        (case authoritative_loop dns1 fqdn token [0..<number_of_attempts] False of
           (status1, ev1) \<Rightarrow>
             (case (if status1 then public_loop dns2 fqdn token [0..<number_of_attempts] status1
                    else (status1, [])) of
                (stat, ev2) \<Rightarrow>
                  (Inr (),
                   ev1 @ ev2 @
                   (if \<not> stat
                    then [Metric ''wait_for_dns_change_fail'', SentryCapture,
                          Metric ''wait_for_dns_change_error'']
                    else [])))))"

definition attempts :: "string \<Rightarrow> event list \<Rightarrow> nat" where
  \<comment> \<open>the number of queries sent to a name server\<close>
  "attempts ns evs = length (filter (\<lambda>e. case e of DnsQuery n q \<Rightarrow> n = ns | _ \<Rightarrow> False) evs)"

section \<open>acme\_handlers.py\<close>

subsection \<open>Data\<close>

text \<open>
  The ACME order objects come from the \<^verbatim>\<open>acme\<close> library: an authorization has an
  identifier value, a wildcard flag (read for its truth value) and challenge bodies;
  \<open>validation\<close> is the value \<^verbatim>\<open>dns_challenge.validation(account_key)\<close> for the key
  of the client at hand, and \<^verbatim>\<open>validation_domain_name(name)\<close> is
  \<^verbatim>\<open>"_acme-challenge" + "." + name\<close>.
\<close>

datatype chall_type = DNS01 | HTTP01 | TLSALPN01

record challenge_body =
  chall :: chall_type
  validation :: string

record authorization =
  identifier_value :: string
  wildcard :: bool
  challenges :: "challenge_body list"

definition validation_domain_name :: "string \<Rightarrow> string" where
  "validation_domain_name nm = ''_acme-challenge'' @ ''.'' @ nm"

text \<open>
  Modelled from the spec: the class \<^verbatim>\<open>DnsProvider\<close> (lemur.dns\_providers) is not part of
  the sources at hand. It has a \<^verbatim>\<open>provider_type\<close>, \<^verbatim>\<open>credentials\<close> (JSON text, here
  the object it parses to, or \<open>None\<close> when \<^verbatim>\<open>json.loads\<close> raises), \<^verbatim>\<open>domains\<close> (the
  zone suffixes the account owns, possibly \<^verbatim>\<open>None\<close>) and \<^verbatim>\<open>options\<close> (an object or
  \<^verbatim>\<open>None\<close>).
\<close>

record dns_provider =
  provider_type :: string
  credentials :: "(string \<rightharpoonup> string) option"
  domains :: "string list option"
  options :: "(string \<rightharpoonup> string) option"

record authorization_record =
  domain :: string
  target_domain :: string
  authz :: "authorization list"
  dns_challenge :: "challenge_body list"
  change_id :: "change_id list"

record handler =
  all_dns_providers :: "dns_provider list"
  dns_providers_for_domain :: "string \<rightharpoonup> dns_provider list"

subsection \<open>AcmeHandler\<close>

definition strip_wildcard :: "string \<Rightarrow> string \<times> bool" where
  "strip_wildcard host =
     (if startswith host ''*.'' then (drop (length ''*.'') host, True) else (host, False))"

definition maybe_add_extension :: "string \<Rightarrow> (string \<rightharpoonup> string) option \<Rightarrow> string" where
  \<comment> \<open>an absent or empty object and an absent or empty extension are all falsy\<close>
  "maybe_add_extension host dns_provider_options =
     (case dns_provider_options of
        None \<Rightarrow> host
      | Some opts \<Rightarrow>
          (case opts ''acme_challenge_extension'' of
             None \<Rightarrow> host
           | Some ext \<Rightarrow> if ext = [] then host else host @ ext))"

subsection \<open>AcmeDnsHandler\<close>

fun get_dns_challenges_loop :: "string \<Rightarrow> bool \<Rightarrow> authorization list \<Rightarrow> challenge_body list" where
  "get_dns_challenges_loop domain_to_validate is_wildcard [] = []"
| "get_dns_challenges_loop domain_to_validate is_wildcard (a # as) =
     (if \<not> (lower (identifier_value a) = lower domain_to_validate)
      then get_dns_challenges_loop domain_to_validate is_wildcard as
      else if is_wildcard \<and> \<not> wildcard a
      then get_dns_challenges_loop domain_to_validate is_wildcard as
      else if \<not> is_wildcard \<and> wildcard a
      then get_dns_challenges_loop domain_to_validate is_wildcard as
      else filter (\<lambda>combo. chall combo = DNS01) (challenges a)
           @ get_dns_challenges_loop domain_to_validate is_wildcard as)"

definition get_dns_challenges :: "string \<Rightarrow> authorization list \<Rightarrow> challenge_body list" where
  "get_dns_challenges host authorizations =
     (case strip_wildcard host of
        (domain_to_validate, is_wildcard) \<Rightarrow>
          get_dns_challenges_loop domain_to_validate is_wildcard authorizations)"

definition get_dns_provider :: "string \<Rightarrow> error + plugin" where
  "get_dns_provider t =
     (if t = ''cloudflare'' then Inr Cloudflare
      else if t = ''dyn'' then Inr Dyn
      else if t = ''route53'' then Inr Route53
      else if t = ''ultradns'' then Inr Ultradns
      else if t = ''powerdns'' then Inr Powerdns
      else Inl (UnknownProvider t))"

text \<open>
  The provider plugins are modules chosen by \<^verbatim>\<open>get_dns_provider\<close>; only ultradns.py is
  among the sources. A handler function therefore takes the plugin operation it calls as
  an argument (\<open>create_op\<close>, \<open>delete_op\<close>, \<open>wait_op\<close>), acting on a world \<open>'w\<close>, and
  records each call it makes.
\<close>

fun create_txt_records ::
  "(plugin \<Rightarrow> string \<Rightarrow> string \<Rightarrow> string option \<Rightarrow> 'w \<Rightarrow> (error + change_id) \<times> 'w) \<Rightarrow>
   plugin \<Rightarrow> string option \<Rightarrow> string \<Rightarrow> string \<Rightarrow> challenge_body list \<Rightarrow> string \<Rightarrow>
   change_id list \<Rightarrow> 'w \<times> event list \<Rightarrow> (error + change_id list) \<times> 'w \<times> event list" where
  \<comment> \<open>the \<^verbatim>\<open>for dns_challenge in dns_challenges\<close> loop of \<^verbatim>\<open>start_dns_challenge\<close>,
      threading \<^verbatim>\<open>host_to_validate\<close> and \<^verbatim>\<open>change_ids\<close>\<close>
  "create_txt_records create_op p account_number d target [] host_to_validate change_ids (w, ev) =
     (Inr change_ids, w, ev)"
| "create_txt_records create_op p account_number d target (c # cs) host_to_validate change_ids (w, ev) =
     (let host = (if d = target then validation_domain_name host_to_validate
                  else host_to_validate);
          ev' = ev @ [Call (CreateTxtRecord p host (validation c) account_number)]
      in case create_op p host (validation c) account_number w of
           (Inl e, w') \<Rightarrow> (Inl e, w', ev')
         | (Inr cid, w') \<Rightarrow>
             create_txt_records create_op p account_number d target cs host
               (change_ids @ [cid]) (w', ev'))"

definition start_dns_challenge ::
  "(plugin \<Rightarrow> string \<Rightarrow> string \<Rightarrow> string option \<Rightarrow> 'w \<Rightarrow> (error + change_id) \<times> 'w) \<Rightarrow>
   string option \<Rightarrow> string \<Rightarrow> string \<Rightarrow> plugin \<Rightarrow> authorization list \<Rightarrow>
   (string \<rightharpoonup> string) option \<Rightarrow> 'w \<Rightarrow> (error + authorization_record) \<times> 'w \<times> event list" where
  "start_dns_challenge create_op account_number d target p order_authorizations
       dns_provider_options w =
     (let dns_challenges = get_dns_challenges d order_authorizations;
          host_to_validate =
            maybe_add_extension (fst (strip_wildcard target)) dns_provider_options
      in if dns_challenges = [] then
           (Inl NoDnsChallenges, w,
            [SentryCapture, Metric ''start_dns_challenge_error_no_dns_challenges''])
         else
           case create_txt_records create_op p account_number d target dns_challenges
                  host_to_validate [] (w, []) of
             (Inl e, w', ev) \<Rightarrow> (Inl e, w', ev)
           | (Inr change_ids, w', ev) \<Rightarrow>
               (Inr \<lparr>domain = d, target_domain = target, authz = order_authorizations,
                     dns_challenge = dns_challenges, change_id = change_ids\<rparr>, w', ev))"

fun names_loop ::
  "string \<Rightarrow> dns_provider \<Rightarrow> string list \<Rightarrow> dns_provider list \<times> nat \<Rightarrow> dns_provider list \<times> nat" where
  \<comment> \<open>the \<^verbatim>\<open>for name in dns_provider.domains\<close> loop, threading the list stored for the
      domain and \<^verbatim>\<open>match_length\<close>\<close>
  "names_loop d p [] (found, match_length) = (found, match_length)"
| "names_loop d p (nm # nms) (found, match_length) =
     (if nm = d \<or> endswith d (''.'' @ nm) then
        (if length nm > match_length then names_loop d p nms ([p], length nm)
         else if length nm = match_length then names_loop d p nms (found @ [p], match_length)
         else names_loop d p nms (found, match_length))
      else names_loop d p nms (found, match_length))"

fun providers_loop ::
  "string \<Rightarrow> dns_provider list \<Rightarrow> dns_provider list \<times> nat \<Rightarrow> dns_provider list \<times> nat" where
  "providers_loop d [] acc = acc"
| "providers_loop d (p # ps) acc =
     (case domains p of
        None \<Rightarrow> providers_loop d ps acc
      | Some nms \<Rightarrow>
          if nms = [] then providers_loop d ps acc
          else providers_loop d ps (names_loop d p nms acc))"

definition autodetect_dns_providers ::
  "handler \<Rightarrow> string \<Rightarrow> (string \<rightharpoonup> dns_provider list) \<times> handler" where
  \<comment> \<open>returns \<^verbatim>\<open>self.dns_providers_for_domain\<close>, the whole dictionary, and leaves the
      handler updated\<close>
  "autodetect_dns_providers h d =
     (let found = fst (providers_loop d (all_dns_providers h) ([], 0));
          h' = h\<lparr>dns_providers_for_domain := (dns_providers_for_domain h)(d \<mapsto> found)\<rparr>
      in (dns_providers_for_domain h', h'))"

datatype cname_answer = CnameException | CnameTargets "string list"
  \<comment> \<open>what \<^verbatim>\<open>dns.resolver.query(domain, 'CNAME')\<close> does: it raises a
      \<^verbatim>\<open>DNSException\<close> or returns the targets\<close>

definition rstrip_dot :: "string \<Rightarrow> string" where
  \<comment> \<open>\<^verbatim>\<open>s.rstrip('.')\<close>\<close>
  "rstrip_dot s = rev (dropWhile (\<lambda>c. c = CHR ''.'') (rev s))"

definition get_cname :: "(string \<Rightarrow> cname_answer) \<Rightarrow> string \<Rightarrow> string option" where
  \<comment> \<open>\<open>None\<close> stands for both falsy results, \<^verbatim>\<open>False\<close> after an exception and
      \<^verbatim>\<open>None\<close> for an empty answer\<close>
  "get_cname resolve d =
     (case resolve d of
        CnameException \<Rightarrow> None
      | CnameTargets ts \<Rightarrow> (case ts of [] \<Rightarrow> None | t # rest \<Rightarrow> Some (rstrip_dot t)))"

fun start_challenges ::
  "(plugin \<Rightarrow> string \<Rightarrow> string \<Rightarrow> string option \<Rightarrow> 'w \<Rightarrow> (error + change_id) \<times> 'w) \<Rightarrow>
   string \<Rightarrow> string \<Rightarrow> authorization list \<Rightarrow> dns_provider list \<Rightarrow>
   'w \<times> event list \<times> authorization_record list \<Rightarrow>
   (error + authorization_record list) \<times> 'w \<times> event list" where
  \<comment> \<open>the \<^verbatim>\<open>for dns_provider in self.dns_providers_for_domain[target_domain]\<close> loop of
      \<^verbatim>\<open>get_authorizations\<close>, threading the list \<^verbatim>\<open>authorizations\<close>\<close>
  "start_challenges create_op d target order_authorizations [] (w, ev, authorizations) =
     (Inr authorizations, w, ev)"
| "start_challenges create_op d target order_authorizations (p # ps) (w, ev, authorizations) =
     (case get_dns_provider (provider_type p) of
        Inl e \<Rightarrow> (Inl e, w, ev)
      | Inr dns_provider_plugin \<Rightarrow>
          (case credentials p of
             None \<Rightarrow> (Inl JSONDecodeError, w, ev)
           | Some dns_provider_options \<Rightarrow>
               (let account_number = dns_provider_options ''account_id''
                in case start_dns_challenge create_op account_number d target
                          dns_provider_plugin order_authorizations (options p) w of
                     (Inl e, w', ev') \<Rightarrow> (Inl e, w', ev @ ev')
                   | (Inr authz_record, w', ev') \<Rightarrow>
                       start_challenges create_op d target order_authorizations ps
                         (w', ev @ ev', authorizations @ [authz_record]))))"

fun get_authorizations_loop ::
  "(plugin \<Rightarrow> string \<Rightarrow> string \<Rightarrow> string option \<Rightarrow> 'w \<Rightarrow> (error + change_id) \<times> 'w) \<Rightarrow>
   bool \<Rightarrow> (string \<Rightarrow> cname_answer) \<Rightarrow> authorization list \<Rightarrow> string list \<Rightarrow>
   handler \<times> 'w \<times> event list \<times> authorization_record list \<Rightarrow>
   (error + authorization_record list) \<times> handler \<times> 'w \<times> event list" where
  \<comment> \<open>the \<^verbatim>\<open>for domain in order_info.domains\<close> loop; \<open>delegated\<close> is the setting
      \<^verbatim>\<open>ACME_ENABLE_DELEGATED_CNAME\<close>\<close>
  "get_authorizations_loop create_op delegated resolve order_authorizations []
       (h, w, ev, authorizations) = (Inr authorizations, h, w, ev)"
| "get_authorizations_loop create_op delegated resolve order_authorizations (d # ds)
       (h, w, ev, authorizations) =
     (case (if delegated then
              (case get_cname resolve (validation_domain_name (fst (strip_wildcard d))) of
                 None \<Rightarrow> (d, h)
               | Some cname_result \<Rightarrow>
                   if cname_result = [] then (d, h)
                   else (cname_result, snd (autodetect_dns_providers h cname_result)))
            else (d, h)) of
        (target, h') \<Rightarrow>
          (case dns_providers_for_domain h' target of
             None \<Rightarrow>
               (Inl (NoDnsProviders target), h', w,
                ev @ [Metric ''get_authorizations_no_dns_provider_for_domain''])
           | Some dns_providers \<Rightarrow>
               if dns_providers = [] then
                 (Inl (NoDnsProviders target), h', w,
                  ev @ [Metric ''get_authorizations_no_dns_provider_for_domain''])
               else
                 (case start_challenges create_op d target order_authorizations dns_providers
                         (w, ev, authorizations) of
                    (Inl e, w', ev') \<Rightarrow> (Inl e, h', w', ev')
                  | (Inr authorizations', w', ev') \<Rightarrow>
                      get_authorizations_loop create_op delegated resolve order_authorizations ds
                        (h', w', ev', authorizations'))))"

definition get_authorizations ::
  "handler \<Rightarrow>
   (plugin \<Rightarrow> string \<Rightarrow> string \<Rightarrow> string option \<Rightarrow> 'w \<Rightarrow> (error + change_id) \<times> 'w) \<Rightarrow>
   bool \<Rightarrow> (string \<Rightarrow> cname_answer) \<Rightarrow> authorization list \<Rightarrow> string list \<Rightarrow> 'w \<Rightarrow>
   (error + authorization_record list) \<times> handler \<times> 'w \<times> event list" where
  \<comment> \<open>the arguments after the handler stand for the provider plugins, the configuration,
      the resolver, \<^verbatim>\<open>order.authorizations\<close> and \<^verbatim>\<open>order_info.domains\<close>\<close>
  "get_authorizations h create_op delegated resolve order_authorizations order_domains w =
     get_authorizations_loop create_op delegated resolve order_authorizations order_domains
       (h, w, [], [])"

fun wait_for_changes ::
  "(plugin \<Rightarrow> change_id \<Rightarrow> string option \<Rightarrow> 'w \<Rightarrow> (error + unit) \<times> 'w) \<Rightarrow>
   plugin \<Rightarrow> string option \<Rightarrow> change_id list \<Rightarrow> 'w \<times> event list \<Rightarrow>
   (error + unit) \<times> 'w \<times> event list" where
  \<comment> \<open>the \<^verbatim>\<open>for change_id in authz_record.change_id\<close> loop: an exception is reported
      and raised again\<close>
  "wait_for_changes wait_op p account_number [] (w, ev) = (Inr (), w, ev)"
| "wait_for_changes wait_op p account_number (c # cs) (w, ev) =
     (let ev' = ev @ [Call (WaitForDnsChange p c account_number)]
      in case wait_op p c account_number w of
           (Inl e, w') \<Rightarrow>
             (Inl e, w',
              ev' @ [Metric ''complete_dns_challenge_error'', SentryCapture,
                     LogDebug ''Unable to resolve DNS challenge''])
         | (Inr u, w') \<Rightarrow> wait_for_changes wait_op p account_number cs (w', ev'))"

fun verify_challenges ::
  "(challenge_body \<Rightarrow> string \<Rightarrow> bool) \<Rightarrow> string \<Rightarrow> challenge_body list \<Rightarrow>
   (bool \<times> challenge_body) option \<Rightarrow> (bool \<times> challenge_body) option" where
  \<comment> \<open>the \<^verbatim>\<open>for dns_challenge in authz_record.dns_challenge\<close> loop: what it leaves in
      \<^verbatim>\<open>verified\<close> and \<^verbatim>\<open>dns_challenge\<close>, \<open>None\<close> while they are unbound\<close>
  "verify_challenges simple_verify target [] bound = bound"
| "verify_challenges simple_verify target (c # cs) bound =
     verify_challenges simple_verify target cs (Some (simple_verify c target, c))"

fun complete_providers ::
  "(plugin \<Rightarrow> change_id \<Rightarrow> string option \<Rightarrow> 'w \<Rightarrow> (error + unit) \<times> 'w) \<Rightarrow>
   (challenge_body \<Rightarrow> string \<Rightarrow> bool) \<Rightarrow> (challenge_body \<Rightarrow> 'w \<Rightarrow> (error + unit) \<times> 'w) \<Rightarrow>
   authorization_record \<Rightarrow> dns_provider list \<Rightarrow> (bool \<times> challenge_body) option \<Rightarrow>
   'w \<times> event list \<Rightarrow> (error + unit) \<times> 'w \<times> event list" where
  "complete_providers wait_op simple_verify answer_challenge r [] bound (w, ev) = (Inr (), w, ev)"
| "complete_providers wait_op simple_verify answer_challenge r (p # ps) bound (w, ev) =
     (case credentials p of
        None \<Rightarrow> (Inl JSONDecodeError, w, ev)
      | Some dns_provider_options \<Rightarrow>
          (let account_number = dns_provider_options ''account_id''
           in case get_dns_provider (provider_type p) of
                Inl e \<Rightarrow> (Inl e, w, ev)
              | Inr dns_provider_plugin \<Rightarrow>
                  (case wait_for_changes wait_op dns_provider_plugin account_number
                          (change_id r) (w, ev) of
                     (Inl e, w1, ev1) \<Rightarrow> (Inl e, w1, ev1)
                   | (Inr u, w1, ev1) \<Rightarrow>
                       (case verify_challenges simple_verify (target_domain r)
                               (dns_challenge r) bound of
                          None \<Rightarrow> (Inl NameError, w1, ev1)
                        | Some (verified, c) \<Rightarrow>
                            if \<not> verified then
                              (Inl FailedVerification, w1,
                               ev1 @ [Metric ''complete_dns_challenge_verification_error''])
                            else
                              (case answer_challenge c w1 of
                                 (Inl e, w2) \<Rightarrow>
                                   (Inl e, w2, ev1 @ [Sleep 5, AnswerChallenge (validation c)])
                               | (Inr u, w2) \<Rightarrow>
                                   complete_providers wait_op simple_verify answer_challenge r ps
                                     (Some (verified, c))
                                     (w2, ev1 @ [Sleep 5, AnswerChallenge (validation c)]))))))"

definition complete_dns_challenge ::
  "handler \<Rightarrow> (plugin \<Rightarrow> change_id \<Rightarrow> string option \<Rightarrow> 'w \<Rightarrow> (error + unit) \<times> 'w) \<Rightarrow>
   (challenge_body \<Rightarrow> string \<Rightarrow> bool) \<Rightarrow> (challenge_body \<Rightarrow> 'w \<Rightarrow> (error + unit) \<times> 'w) \<Rightarrow>
   authorization_record \<Rightarrow> 'w \<Rightarrow> (error + unit) \<times> 'w \<times> event list" where
  \<comment> \<open>\<open>simple_verify\<close> and \<open>answer_challenge\<close> stand for the ACME client library\<close>
  "complete_dns_challenge h wait_op simple_verify answer_challenge r w =
     (if authz r = [] then (Inl IndexError, w, [])
      else
        case dns_providers_for_domain h (target_domain r) of
          None \<Rightarrow>
            (Inl (NoDnsProviders (target_domain r)), w,
             [Metric ''complete_dns_challenge_error_no_dnsproviders''])
        | Some dns_providers \<Rightarrow>
            if dns_providers = [] then
              (Inl (NoDnsProviders (target_domain r)), w,
               [Metric ''complete_dns_challenge_error_no_dnsproviders''])
            else complete_providers wait_op simple_verify answer_challenge r dns_providers
                   None (w, []))"

fun cleanup_challenges ::
  "(plugin \<Rightarrow> change_id list \<Rightarrow> string option \<Rightarrow> string \<Rightarrow> string \<Rightarrow> 'w \<Rightarrow> (error + unit) \<times> 'w) \<Rightarrow>
   plugin \<Rightarrow> authorization_record \<Rightarrow> string option \<Rightarrow> challenge_body list \<Rightarrow> string \<Rightarrow>
   'w \<times> event list \<Rightarrow> 'w \<times> event list" where
  \<comment> \<open>the \<^verbatim>\<open>for dns_challenge in dns_challenges\<close> loop of \<^verbatim>\<open>cleanup_dns_challenges\<close>:
      the deletion is inside \<^verbatim>\<open>try ... except Exception\<close>\<close>
  "cleanup_challenges delete_op p r account_number [] host_to_validate (w, ev) = (w, ev)"
| "cleanup_challenges delete_op p r account_number (c # cs) host_to_validate (w, ev) =
     (let host = (if domain r = target_domain r then validation_domain_name host_to_validate
                  else host_to_validate);
          ev' = ev @ [Call (DeleteTxtRecord p (change_id r) account_number host (validation c))]
      in case delete_op p (change_id r) account_number host (validation c) w of
           (Inl e, w') \<Rightarrow>
             cleanup_challenges delete_op p r account_number cs host
               (w', ev' @ [Metric ''cleanup_dns_challenges_error'', SentryCapture])
         | (Inr u, w') \<Rightarrow>
             cleanup_challenges delete_op p r account_number cs host (w', ev'))"

fun cleanup_providers ::
  "(plugin \<Rightarrow> change_id list \<Rightarrow> string option \<Rightarrow> string \<Rightarrow> string \<Rightarrow> 'w \<Rightarrow> (error + unit) \<times> 'w) \<Rightarrow>
   authorization_record \<Rightarrow> dns_provider list \<Rightarrow> 'w \<times> event list \<Rightarrow>
   (error + unit) \<times> 'w \<times> event list" where
  "cleanup_providers delete_op r [] (w, ev) = (Inr (), w, ev)"
| "cleanup_providers delete_op r (p # ps) (w, ev) =
     (case credentials p of
        None \<Rightarrow> (Inl JSONDecodeError, w, ev)
      | Some dns_provider_options \<Rightarrow>
          (let account_number = dns_provider_options ''account_id'';
               host_to_validate =
                 maybe_add_extension (fst (strip_wildcard (target_domain r)))
                   (Some dns_provider_options)
           in case get_dns_provider (provider_type p) of
                Inl e \<Rightarrow> (Inl e, w, ev)
              | Inr dns_provider_plugin \<Rightarrow>
                  cleanup_providers delete_op r ps
                    (cleanup_challenges delete_op dns_provider_plugin r account_number
                       (dns_challenge r) host_to_validate (w, ev))))"

fun cleanup_records ::
  "handler \<Rightarrow>
   (plugin \<Rightarrow> change_id list \<Rightarrow> string option \<Rightarrow> string \<Rightarrow> string \<Rightarrow> 'w \<Rightarrow> (error + unit) \<times> 'w) \<Rightarrow>
   authorization_record list \<Rightarrow> 'w \<times> event list \<Rightarrow> (error + unit) \<times> 'w \<times> event list" where
  \<comment> \<open>\<^verbatim>\<open>self.dns_providers_for_domain.get(...)\<close> is \<^verbatim>\<open>None\<close> for a missing key, and
      the \<^verbatim>\<open>for\<close> statement over it raises\<close>
  "cleanup_records h delete_op [] (w, ev) = (Inr (), w, ev)"
| "cleanup_records h delete_op (r # rs) (w, ev) =
     (case dns_providers_for_domain h (target_domain r) of
        None \<Rightarrow> (Inl TypeError, w, ev)
      | Some dns_providers \<Rightarrow>
          (case cleanup_providers delete_op r dns_providers (w, ev) of
             (Inl e, w', ev') \<Rightarrow> (Inl e, w', ev')
           | (Inr u, w', ev') \<Rightarrow> cleanup_records h delete_op rs (w', ev')))"

definition cleanup_dns_challenges ::
  "handler \<Rightarrow>
   (plugin \<Rightarrow> change_id list \<Rightarrow> string option \<Rightarrow> string \<Rightarrow> string \<Rightarrow> 'w \<Rightarrow> (error + unit) \<times> 'w) \<Rightarrow>
   authorization_record list \<Rightarrow> 'w \<Rightarrow> (error + unit) \<times> 'w \<times> event list" where
  "cleanup_dns_challenges h delete_op authorizations w =
     cleanup_records h delete_op authorizations (w, [])"

subsection \<open>The ultradns plugin as the handler calls it\<close>

definition ultradns_create_op ::
  "plugin \<Rightarrow> string \<Rightarrow> string \<Rightarrow> string option \<Rightarrow> service \<Rightarrow> (error + change_id) \<times> service" where
  "ultradns_create_op p host token account_number s = create_txt_record host token account_number s"

definition ultradns_delete_op ::
  "plugin \<Rightarrow> change_id list \<Rightarrow> string option \<Rightarrow> string \<Rightarrow> string \<Rightarrow> service \<Rightarrow>
   (error + unit) \<times> service" where
  "ultradns_delete_op p cid account_number host token s =
     delete_txt_record cid account_number host token s"

definition ultradns_wait_op ::
  "(nat \<Rightarrow> resolver) \<Rightarrow> (nat \<Rightarrow> resolver) \<Rightarrow> plugin \<Rightarrow> change_id \<Rightarrow> string option \<Rightarrow>
   service \<Rightarrow> (error + unit) \<times> service" where
  "ultradns_wait_op dns1 dns2 p cid account_number s =
     (case wait_for_dns_change dns1 dns2 cid account_number of
        (res, ev) \<Rightarrow> (res, emit ev s))"

section \<open>Notions used to state the properties\<close>

definition owned :: "dns_provider \<Rightarrow> string list" where
  \<comment> \<open>the suffixes a provider iterates over: none when \<^verbatim>\<open>domains\<close> is falsy\<close>
  "owned p = (case domains p of None \<Rightarrow> [] | Some nms \<Rightarrow> nms)"

text \<open>
  What a pass of the resolver loops over the provider and suffix pairs \<open>S\<close> that match
  does to the pair of the stored list and \<^verbatim>\<open>match_length\<close>.
\<close>

definition tracked ::
  "(dns_provider \<times> string) set \<Rightarrow> dns_provider list \<times> nat \<Rightarrow> dns_provider list \<times> nat \<Rightarrow> bool" where
  "tracked S a b \<longleftrightarrow>
     snd a \<le> snd b \<and>
     (\<forall>(q, nm) \<in> S. length nm \<le> snd b) \<and>
     (snd b = snd a \<or> (\<exists>(q, nm) \<in> S. length nm = snd b)) \<and>
     set (fst b) = (if snd b = snd a then set (fst a) else {}) \<union>
                   {q. \<exists>nm. (q, nm) \<in> S \<and> length nm = snd b}"

text \<open>
  The stub of the claims about polling: whether the query of attempt \<open>a\<close> (counted from
  0) to the name server \<open>ns\<close> reports the token.
\<close>

definition propagated :: "(nat \<Rightarrow> resolver) \<Rightarrow> string \<Rightarrow> string \<Rightarrow> string \<Rightarrow> nat \<Rightarrow> bool" where
  "propagated dns ns fqdn token a = fst (has_dns_propagated (dns a) fqdn token ns)"

text \<open>
  Events that are neither a request to the DNS provider, a plugin call, an answer to the
  ACME server nor a report of failed propagation.
\<close>

definition quiet :: "event \<Rightarrow> bool" where
  "quiet e = (case e of HttpRequest rq \<Rightarrow> False | Call c \<Rightarrow> False | AnswerChallenge t \<Rightarrow> False
              | Metric m \<Rightarrow> m \<noteq> ''wait_for_dns_change_fail'' \<and> m \<noteq> ''wait_for_dns_change_error''
              | SentryCapture \<Rightarrow> False | _ \<Rightarrow> True)"

text \<open>
  The node name that \<^verbatim>\<open>create_txt_record\<close> and \<^verbatim>\<open>delete_txt_record\<close> compute from the
  domain and the matched zone.
\<close>

definition node_of :: "string \<Rightarrow> string \<Rightarrow> string" where
  "node_of d z = join_dot (slice_to_neg (length (split_dot z)) (split_dot d))"

section \<open>Example inputs\<close>

definition provider_com :: dns_provider where
  "provider_com = \<lparr>provider_type = ''ultradns'', credentials = Some [''account_id'' \<mapsto> ''1''],
     domains = Some [''com''], options = None\<rparr>"
definition provider_example :: dns_provider where
  "provider_example = \<lparr>provider_type = ''ultradns'', credentials = Some [''account_id'' \<mapsto> ''2''],
     domains = Some [''example.org'', ''example.com''], options = None\<rparr>"
definition provider_backup :: dns_provider where
  "provider_backup = \<lparr>provider_type = ''route53'', credentials = Some [''account_id'' \<mapsto> ''3''],
     domains = Some [''example.com''], options = None\<rparr>"
definition example_handler :: handler where
  "example_handler = \<lparr>all_dns_providers = [provider_com, provider_example, provider_backup],
     dns_providers_for_domain = Map.empty\<rparr>"

definition challenge_plain :: challenge_body where
  "challenge_plain = \<lparr>chall = DNS01, validation = ''token-plain''\<rparr>"
definition challenge_wild :: challenge_body where
  "challenge_wild = \<lparr>chall = DNS01, validation = ''token-wild''\<rparr>"
definition challenge_http :: challenge_body where
  "challenge_http = \<lparr>chall = HTTP01, validation = ''token-http''\<rparr>"
definition example_authorizations :: "authorization list" where
  "example_authorizations =
     [\<lparr>identifier_value = ''example.com'', wildcard = False,
       challenges = [challenge_http, challenge_plain]\<rparr>,
      \<lparr>identifier_value = ''example.com'', wildcard = True, challenges = [challenge_wild]\<rparr>]"
definition example_authorizations_upper :: "authorization list" where
  "example_authorizations_upper =
     [\<lparr>identifier_value = ''EXAMPLE.com'', wildcard = False,
       challenges = [challenge_http, challenge_plain]\<rparr>,
      \<lparr>identifier_value = ''Example.Com'', wildcard = True, challenges = [challenge_wild]\<rparr>]"

definition dns_after :: "nat \<Rightarrow> string \<Rightarrow> nat \<Rightarrow> resolver" where
  "dns_after n token a = (\<lambda>ns nm. if n \<le> a then Answer [''other'', token] else DNSException)"

definition dns_never :: "nat \<Rightarrow> resolver" where
  "dns_never a = (\<lambda>ns nm. Answer [''other''])"

definition example_service :: service where
  "example_service =
     \<lparr>zone_pages = [[\<lparr>name = ''example.com'', authoritative_type = ''PRIMARY'', status = ''ACTIVE''\<rparr>]],
      rrsets = Map.empty, fault = (\<lambda>rq. None), trace = []\<rparr>"

definition polling_handler :: handler where
  "polling_handler =
     \<lparr>all_dns_providers = [provider_example],
      dns_providers_for_domain = [''foo.example.com'' \<mapsto> [provider_example]]\<rparr>"

definition example_record :: authorization_record where
  "example_record =
     \<lparr>domain = ''foo.example.com'', target_domain = ''foo.example.com'',
      authz = [\<lparr>identifier_value = ''foo.example.com'', wildcard = False,
                challenges = [challenge_plain]\<rparr>],
      dns_challenge = [challenge_plain],
      change_id = [(''_acme-challenge.foo.example.com'', ''token-plain'')]\<rparr>"

definition shared_service :: service where
  "shared_service =
     \<lparr>zone_pages = [[\<lparr>name = ''com'', authoritative_type = ''PRIMARY'', status = ''ACTIVE''\<rparr>,
                     \<lparr>name = ''example.com'', authoritative_type = ''PRIMARY'', status = ''ACTIVE''\<rparr>,
                     \<lparr>name = ''foo.example.com'', authoritative_type = ''SECONDARY'', status = ''ACTIVE''\<rparr>]],
      rrsets = [(''example.com'', ''_acme-challenge.foo'') \<mapsto> [''token-a'', ''token-b'']],
      fault = (\<lambda>rq. None), trace = []\<rparr>"

definition failing_service :: service where
  "failing_service =
     \<lparr>zone_pages = [[\<lparr>name = ''example.com'', authoritative_type = ''PRIMARY'', status = ''ACTIVE''\<rparr>]],
      rrsets = Map.empty,
      fault = (\<lambda>rq. case rq of PostRRSet path rd \<Rightarrow> Some (HTTPError 500) | _ \<Rightarrow> None),
      trace = []\<rparr>"

definition challenge_second :: challenge_body where
  "challenge_second = \<lparr>chall = DNS01, validation = ''token-second''\<rparr>"

definition two_challenges :: "authorization list" where
  "two_challenges =
     [\<lparr>identifier_value = ''foo.example.com'', wildcard = False,
       challenges = [challenge_plain, challenge_http, challenge_second]\<rparr>]"

definition provider_extension :: dns_provider where
  "provider_extension =
     \<lparr>provider_type = ''ultradns'', credentials = Some [''account_id'' \<mapsto> ''2''],
      domains = Some [''example.com''],
      options = Some [''acme_challenge_extension'' \<mapsto> ''.validation.example.com'']\<rparr>"

definition extension_handler :: handler where
  "extension_handler =
     \<lparr>all_dns_providers = [provider_extension],
      dns_providers_for_domain = [''foo.example.com'' \<mapsto> [provider_extension]]\<rparr>"

definition created_record :: authorization_record where
  "created_record =
     \<lparr>domain = ''foo.example.com'', target_domain = ''foo.example.com'',
      authz = [\<lparr>identifier_value = ''foo.example.com'', wildcard = False,
                challenges = [challenge_plain]\<rparr>],
      dns_challenge = [challenge_plain],
      change_id = [(''_acme-challenge.foo.example.com.validation.example.com'', ''token-plain'')]\<rparr>"

definition after_creation :: service where
  "after_creation =
     fst (snd (snd (get_authorizations extension_handler ultradns_create_op False
       (\<lambda>d. CnameException) (authz created_record) [''foo.example.com''] example_service)))"

section \<open>Properties\<close>

subsection \<open>Helper lemmas\<close>

lemma endswith_suffix: "endswith s t \<longleftrightarrow> suffix t s"
proof
  assume "endswith s t"
  then have "s = take (length s - length t) s @ t"
    by (metis append_take_drop_id endswith_def)
  then show "suffix t s" by (rule suffixI)
next
  assume "suffix t s"
  then obtain zs where "s = zs @ t" by (auto elim: suffixE)
  then show "endswith s t" by (simp add: endswith_def)
qed

lemma tracked_refl: "tracked {} a a"
  by (simp add: tracked_def)

lemma tracked_trans:
  assumes "tracked S1 a b" and "tracked S2 b c"
  shows "tracked (S1 \<union> S2) a c"
  using assms unfolding tracked_def
  by (auto split: if_splits; fastforce)

lemma names_loop_tracked:
  "tracked {(q, nm). q = p \<and> nm \<in> set nms \<and> owns nm d} acc (names_loop d p nms acc)"
proof (induction nms arbitrary: acc)
  case Nil
  then show ?case by (cases acc) (simp add: tracked_def)
next
  case (Cons nm nms)
  obtain found m where acc: "acc = (found, m)" by (cases acc)
  let ?S = "{(q, n). q = p \<and> n \<in> set nms \<and> owns n d}"
  let ?one = "{(q, n). q = p \<and> n = nm \<and> owns n d}"
  define acc1 where "acc1 =
     (if owns nm d then
        (if length nm > m then ([p], length nm)
         else if length nm = m then (found @ [p], m) else (found, m))
      else (found, m))"
  have step: "names_loop d p (nm # nms) acc = names_loop d p nms acc1"
    by (simp add: acc acc1_def owns_def)
  have one: "tracked ?one acc acc1"
    by (auto simp: tracked_def acc acc1_def)
  have "tracked (?one \<union> ?S) acc (names_loop d p nms acc1)"
    using one Cons.IH [of acc1] by (rule tracked_trans)
  moreover have "?one \<union> ?S = {(q, n). q = p \<and> n \<in> set (nm # nms) \<and> owns n d}"
    by auto
  ultimately show ?case by (simp only: step)
qed

lemma providers_loop_tracked:
  "tracked {(q, nm). q \<in> set ps \<and> nm \<in> set (owned q) \<and> owns nm d} acc (providers_loop d ps acc)"
proof (induction ps arbitrary: acc)
  case Nil
  then show ?case by (simp add: tracked_def)
next
  case (Cons p ps)
  let ?S = "{(q, n). q \<in> set ps \<and> n \<in> set (owned q) \<and> owns n d}"
  let ?one = "{(q, n). q = p \<and> n \<in> set (owned p) \<and> owns n d}"
  define acc1 where "acc1 = names_loop d p (owned p) acc"
  have step: "providers_loop d (p # ps) acc = providers_loop d ps acc1"
    by (cases acc) (simp add: acc1_def owned_def split: option.splits)
  have one: "tracked ?one acc acc1"
    unfolding acc1_def by (rule names_loop_tracked)
  have "tracked (?one \<union> ?S) acc (providers_loop d ps acc1)"
    using one Cons.IH [of acc1] by (rule tracked_trans)
  moreover have "?one \<union> ?S = {(q, n). q \<in> set (p # ps) \<and> n \<in> set (owned q) \<and> owns n d}"
    by auto
  ultimately show ?case by (simp only: step)
qed

lemma owned_com: "owned provider_com = [''com'']"
  by (simp add: owned_def provider_com_def)
lemma owned_example: "owned provider_example = [''example.org'', ''example.com'']"
  by (simp add: owned_def provider_example_def)
lemma owned_backup: "owned provider_backup = [''example.com'']"
  by (simp add: owned_def provider_backup_def)
lemma owns_examples:
  "owns ''com'' ''foo.example.com''" "owns ''example.com'' ''foo.example.com''"
  "\<not> owns ''example.org'' ''foo.example.com''"
  by (simp_all add: owns_def endswith_def)

lemma of_char_lower_char:
  "(of_char (lower_char c) :: nat) =
     (if (65 \<le> (of_char c :: nat) \<and> (of_char c :: nat) \<le> 90) \<or>
         (192 \<le> (of_char c :: nat) \<and> (of_char c :: nat) \<le> 222 \<and> (of_char c :: nat) \<noteq> 215)
      then of_char c + 32 else of_char c)"
  by (auto simp: lower_char_def Let_def)

lemma lower_char_star [simp]: "lower_char c = CHR ''*'' \<longleftrightarrow> c = CHR ''*''"
proof -
  have "lower_char c = CHR ''*'' \<longleftrightarrow> (of_char (lower_char c) :: nat) = of_char (CHR ''*'')"
    by (simp only: of_char_eq_iff)
  also have "\<dots> \<longleftrightarrow> (of_char c :: nat) = of_char (CHR ''*'')"
    by (simp add: of_char_lower_char)
  also have "\<dots> \<longleftrightarrow> c = CHR ''*''"
    by (simp only: of_char_eq_iff)
  finally show ?thesis .
qed

lemma lower_char_dot [simp]: "lower_char c = CHR ''.'' \<longleftrightarrow> c = CHR ''.''"
proof -
  have "lower_char c = CHR ''.'' \<longleftrightarrow> (of_char (lower_char c) :: nat) = of_char (CHR ''.'')"
    by (simp only: of_char_eq_iff)
  also have "\<dots> \<longleftrightarrow> (of_char c :: nat) = of_char (CHR ''.'')"
    by (simp add: of_char_lower_char)
  also have "\<dots> \<longleftrightarrow> c = CHR ''.''"
    by (simp only: of_char_eq_iff)
  finally show ?thesis .
qed

lemma lower_star_dot: "lower x = ''*.'' \<longleftrightarrow> x = ''*.''"
  by (cases x; cases "tl x") (auto simp: lower_def)

lemma startswith_lower: "startswith (lower host) ''*.'' \<longleftrightarrow> startswith host ''*.''"
proof -
  have "startswith (lower host) ''*.'' \<longleftrightarrow> lower (take (length ''*.'') host) = ''*.''"
    by (simp add: startswith_def lower_def take_map)
  also have "\<dots> \<longleftrightarrow> startswith host ''*.''"
    by (simp only: lower_star_dot startswith_def)
  finally show ?thesis .
qed

lemma lower_drop: "lower (drop n host) = drop n (lower host)"
  by (simp add: lower_def drop_map)

lemma strip_wildcard_lower:
  "strip_wildcard (lower host) = (lower (fst (strip_wildcard host)), snd (strip_wildcard host))"
  by (simp add: strip_wildcard_def startswith_lower lower_drop)

lemma get_dns_challenges_loop_mem:
  "c \<in> set (get_dns_challenges_loop dv w authorizations) \<longleftrightarrow>
     (\<exists>a \<in> set authorizations.
        lower (identifier_value a) = lower dv \<and> (wildcard a \<longleftrightarrow> w) \<and>
        c \<in> set (challenges a) \<and> chall c = DNS01)"
  by (induction authorizations) auto

lemma get_dns_challenges_loop_lower:
  assumes "lower dv = lower dv'"
    and "map (\<lambda>a. a\<lparr>identifier_value := lower (identifier_value a)\<rparr>) as =
         map (\<lambda>a. a\<lparr>identifier_value := lower (identifier_value a)\<rparr>) as'"
  shows "get_dns_challenges_loop dv w as = get_dns_challenges_loop dv' w as'"
  using assms(2)
proof (induction as arbitrary: as')
  case Nil
  then show ?case by simp
next
  case (Cons a as)
  then obtain b bs where as': "as' = b # bs" by (cases as') auto
  from Cons.prems as' have hd: "a\<lparr>identifier_value := lower (identifier_value a)\<rparr>
        = b\<lparr>identifier_value := lower (identifier_value b)\<rparr>"
    and tl: "map (\<lambda>a. a\<lparr>identifier_value := lower (identifier_value a)\<rparr>) as =
         map (\<lambda>a. a\<lparr>identifier_value := lower (identifier_value a)\<rparr>) bs"
    by simp_all
  from hd have same: "lower (identifier_value a) = lower (identifier_value b)"
    "wildcard a = wildcard b" "challenges a = challenges b"
    by (cases a, cases b, simp)+
  show ?case
    using Cons.IH [OF tl] same assms(1) by (cases w; simp add: as')
qed

lemma lower_example: "lower ''example.com'' = ''example.com''"
  by code_simp

lemma attempts_append: "attempts ns (xs @ ys) = attempts ns xs + attempts ns ys"
  by (simp add: attempts_def)

lemma attempts_Nil: "attempts ns [] = 0"
  by (simp add: attempts_def)

lemma attempts_Cons:
  "attempts ns (e # es) = (case e of DnsQuery n q \<Rightarrow> if n = ns then 1 else 0 | _ \<Rightarrow> 0) + attempts ns es"
  by (simp add: attempts_def split: event.splits)

lemma attempts_has_dns_propagated:
  "attempts ns' (snd (has_dns_propagated r nm token ns)) = (if ns' = ns then 1 else 0)"
  by (simp add: attempts_def has_dns_propagated_def split: dns_answer.splits)

lemma authoritative_loop_never:
  assumes "\<forall>a \<in> set as. \<not> propagated dns ''156.154.64.154'' fqdn token a"
  shows "fst (authoritative_loop dns fqdn token as st) = (if as = [] then st else False) \<and>
         attempts ns (snd (authoritative_loop dns fqdn token as st)) =
           (if ns = ''156.154.64.154'' then length as else 0)"
  using assms
proof (induction as arbitrary: st)
  case Nil
  then show ?case by (simp add: attempts_Nil)
next
  case (Cons a as)
  obtain ev where h: "has_dns_propagated (dns a) fqdn token ''156.154.64.154'' = (False, ev)"
    using Cons.prems by (cases "has_dns_propagated (dns a) fqdn token ''156.154.64.154''")
      (simp add: propagated_def)
  have ev: "attempts ns ev = (if ns = ''156.154.64.154'' then 1 else 0)"
    using attempts_has_dns_propagated [of ns "dns a" fqdn token "''156.154.64.154''"] h by simp
  have ih: "fst (authoritative_loop dns fqdn token as False) = (if as = [] then False else False) \<and>
         attempts ns (snd (authoritative_loop dns fqdn token as False)) =
           (if ns = ''156.154.64.154'' then length as else 0)"
    using Cons.IH [of False] Cons.prems by simp
  show ?case
    using ih ev by (simp add: h split_beta attempts_append attempts_Cons attempts_Nil)
qed

lemma authoritative_loop_first:
  assumes "\<forall>a \<in> set pre. \<not> propagated dns ''156.154.64.154'' fqdn token a"
    and "propagated dns ''156.154.64.154'' fqdn token k"
  shows "fst (authoritative_loop dns fqdn token (pre @ k # post) st) = True \<and>
         attempts ns (snd (authoritative_loop dns fqdn token (pre @ k # post) st)) =
           (if ns = ''156.154.64.154'' then length pre + 1 else 0)"
  using assms(1)
proof (induction pre arbitrary: st)
  case Nil
  obtain ev where h: "has_dns_propagated (dns k) fqdn token ''156.154.64.154'' = (True, ev)"
    using assms(2) by (cases "has_dns_propagated (dns k) fqdn token ''156.154.64.154''")
      (simp add: propagated_def)
  have ev: "attempts ns ev = (if ns = ''156.154.64.154'' then 1 else 0)"
    using attempts_has_dns_propagated [of ns "dns k" fqdn token "''156.154.64.154''"] h by simp
  show ?case using ev by (simp add: h attempts_append attempts_Cons attempts_Nil)
next
  case (Cons a pre)
  obtain ev where h: "has_dns_propagated (dns a) fqdn token ''156.154.64.154'' = (False, ev)"
    using Cons.prems by (cases "has_dns_propagated (dns a) fqdn token ''156.154.64.154''")
      (simp add: propagated_def)
  have ev: "attempts ns ev = (if ns = ''156.154.64.154'' then 1 else 0)"
    using attempts_has_dns_propagated [of ns "dns a" fqdn token "''156.154.64.154''"] h by simp
  show ?case
    using Cons.IH [of False] Cons.prems ev
    by (simp add: h split_beta attempts_append attempts_Cons attempts_Nil)
qed

lemma public_loop_never:
  assumes "\<forall>a \<in> set as. \<not> propagated dns ''8.8.8.8'' fqdn token a"
  shows "fst (public_loop dns fqdn token as st) = (if as = [] then st else False) \<and>
         attempts ns (snd (public_loop dns fqdn token as st)) =
           (if ns = ''8.8.8.8'' then length as else 0)"
  using assms
proof (induction as arbitrary: st)
  case Nil
  then show ?case by (simp add: attempts_Nil)
next
  case (Cons a as)
  obtain ev where h: "has_dns_propagated (dns a) fqdn token ''8.8.8.8'' = (False, ev)"
    using Cons.prems by (cases "has_dns_propagated (dns a) fqdn token ''8.8.8.8''")
      (simp add: propagated_def)
  have ev: "attempts ns ev = (if ns = ''8.8.8.8'' then 1 else 0)"
    using attempts_has_dns_propagated [of ns "dns a" fqdn token "''8.8.8.8''"] h by simp
  have ih: "fst (public_loop dns fqdn token as False) = (if as = [] then False else False) \<and>
         attempts ns (snd (public_loop dns fqdn token as False)) =
           (if ns = ''8.8.8.8'' then length as else 0)"
    using Cons.IH [of False] Cons.prems by simp
  show ?case
    using ih ev by (simp add: h split_beta attempts_append attempts_Cons attempts_Nil)
qed

lemma public_loop_first:
  assumes "\<forall>a \<in> set pre. \<not> propagated dns ''8.8.8.8'' fqdn token a"
    and "propagated dns ''8.8.8.8'' fqdn token k"
  shows "fst (public_loop dns fqdn token (pre @ k # post) st) = True \<and>
         attempts ns (snd (public_loop dns fqdn token (pre @ k # post) st)) =
           (if ns = ''8.8.8.8'' then length pre + 1 else 0)"
  using assms(1)
proof (induction pre arbitrary: st)
  case Nil
  obtain ev where h: "has_dns_propagated (dns k) fqdn token ''8.8.8.8'' = (True, ev)"
    using assms(2) by (cases "has_dns_propagated (dns k) fqdn token ''8.8.8.8''")
      (simp add: propagated_def)
  have ev: "attempts ns ev = (if ns = ''8.8.8.8'' then 1 else 0)"
    using attempts_has_dns_propagated [of ns "dns k" fqdn token "''8.8.8.8''"] h by simp
  show ?case using ev by (simp add: h attempts_append attempts_Cons attempts_Nil)
next
  case (Cons a pre)
  obtain ev where h: "has_dns_propagated (dns a) fqdn token ''8.8.8.8'' = (False, ev)"
    using Cons.prems by (cases "has_dns_propagated (dns a) fqdn token ''8.8.8.8''")
      (simp add: propagated_def)
  have ev: "attempts ns ev = (if ns = ''8.8.8.8'' then 1 else 0)"
    using attempts_has_dns_propagated [of ns "dns a" fqdn token "''8.8.8.8''"] h by simp
  show ?case
    using Cons.IH [of False] Cons.prems ev
    by (simp add: h split_beta attempts_append attempts_Cons attempts_Nil)
qed


lemma quiet_has_dns_propagated: "e \<in> set (snd (has_dns_propagated r nm token ns)) \<Longrightarrow> quiet e"
  by (auto simp: has_dns_propagated_def quiet_def split: dns_answer.splits if_splits)

lemma quiet_authoritative_loop:
  "e \<in> set (snd (authoritative_loop dns fqdn token as st)) \<Longrightarrow> quiet e"
proof (induction as arbitrary: st)
  case Nil
  then show ?case by simp
next
  case (Cons a as)
  obtain b ev where h: "has_dns_propagated (dns a) fqdn token ''156.154.64.154'' = (b, ev)"
    by (cases "has_dns_propagated (dns a) fqdn token ''156.154.64.154''")
  have q: "\<And>x. x \<in> set ev \<Longrightarrow> quiet x"
    using quiet_has_dns_propagated [of _ "dns a" fqdn token "''156.154.64.154''"] h by simp
  show ?case
    using Cons.prems Cons.IH [of b] q
    by (auto simp: h split_beta quiet_def split: if_splits)
qed

lemma quiet_public_loop:
  "e \<in> set (snd (public_loop dns fqdn token as st)) \<Longrightarrow> quiet e"
proof (induction as arbitrary: st)
  case Nil
  then show ?case by simp
next
  case (Cons a as)
  obtain b ev where h: "has_dns_propagated (dns a) fqdn token ''8.8.8.8'' = (b, ev)"
    by (cases "has_dns_propagated (dns a) fqdn token ''8.8.8.8''")
  have q: "\<And>x. x \<in> set ev \<Longrightarrow> quiet x"
    using quiet_has_dns_propagated [of _ "dns a" fqdn token "''8.8.8.8''"] h by simp
  show ?case
    using Cons.prems Cons.IH [of b] q
    by (auto simp: h split_beta quiet_def split: if_splits)
qed

lemma upt_split: "k < n \<Longrightarrow> [0..<n] = [0..<k] @ k # [Suc k..<n]"
  by (metis upt_conv_Cons upt_add_eq_append le_add_diff_inverse less_imp_le_nat zero_le)

lemma authoritative_attempts_first:
  assumes "1 \<le> K" "K \<le> number_of_attempts"
    and "propagated dns ''156.154.64.154'' fqdn token (K - 1)"
    and "\<forall>a < K - 1. \<not> propagated dns ''156.154.64.154'' fqdn token a"
  shows "fst (authoritative_loop dns fqdn token [0..<number_of_attempts] st) = True"
    and "attempts ns (snd (authoritative_loop dns fqdn token [0..<number_of_attempts] st)) =
           (if ns = ''156.154.64.154'' then K else 0)"
proof -
  have sp: "[0..<number_of_attempts] = [0..<K - 1] @ (K - 1) # [Suc (K - 1)..<number_of_attempts]"
    using assms(1,2) by (intro upt_split) simp
  have pre: "\<forall>a \<in> set [0..<K - 1]. \<not> propagated dns ''156.154.64.154'' fqdn token a"
    using assms(4) by simp
  show "fst (authoritative_loop dns fqdn token [0..<number_of_attempts] st) = True"
    unfolding sp using authoritative_loop_first [OF pre assms(3)] by blast
  show "attempts ns (snd (authoritative_loop dns fqdn token [0..<number_of_attempts] st)) =
           (if ns = ''156.154.64.154'' then K else 0)"
    unfolding sp using authoritative_loop_first [OF pre assms(3), where ns = ns] assms(1) by simp
qed

lemma public_attempts_first:
  assumes "1 \<le> K" "K \<le> number_of_attempts"
    and "propagated dns ''8.8.8.8'' fqdn token (K - 1)"
    and "\<forall>a < K - 1. \<not> propagated dns ''8.8.8.8'' fqdn token a"
  shows "fst (public_loop dns fqdn token [0..<number_of_attempts] st) = True"
    and "attempts ns (snd (public_loop dns fqdn token [0..<number_of_attempts] st)) =
           (if ns = ''8.8.8.8'' then K else 0)"
proof -
  have sp: "[0..<number_of_attempts] = [0..<K - 1] @ (K - 1) # [Suc (K - 1)..<number_of_attempts]"
    using assms(1,2) by (intro upt_split) simp
  have pre: "\<forall>a \<in> set [0..<K - 1]. \<not> propagated dns ''8.8.8.8'' fqdn token a"
    using assms(4) by simp
  show "fst (public_loop dns fqdn token [0..<number_of_attempts] st) = True"
    unfolding sp using public_loop_first [OF pre assms(3)] by blast
  show "attempts ns (snd (public_loop dns fqdn token [0..<number_of_attempts] st)) =
           (if ns = ''8.8.8.8'' then K else 0)"
    unfolding sp using public_loop_first [OF pre assms(3), where ns = ns] assms(1) by simp
qed

lemma authoritative_attempts_never:
  assumes "\<forall>a < number_of_attempts. \<not> propagated dns ''156.154.64.154'' fqdn token a"
  shows "fst (authoritative_loop dns fqdn token [0..<number_of_attempts] st) = False"
    and "attempts ns (snd (authoritative_loop dns fqdn token [0..<number_of_attempts] st)) =
           (if ns = ''156.154.64.154'' then number_of_attempts else 0)"
proof -
  have all: "\<forall>a \<in> set [0..<number_of_attempts]. \<not> propagated dns ''156.154.64.154'' fqdn token a"
    using assms by simp
  have ne: "[0..<number_of_attempts] \<noteq> []" by (simp add: number_of_attempts_def)
  show "fst (authoritative_loop dns fqdn token [0..<number_of_attempts] st) = False"
    using authoritative_loop_never [OF all] ne by simp
  show "attempts ns (snd (authoritative_loop dns fqdn token [0..<number_of_attempts] st)) =
           (if ns = ''156.154.64.154'' then number_of_attempts else 0)"
    using authoritative_loop_never [OF all, where ns = ns] by simp
qed

lemma public_attempts_never:
  assumes "\<forall>a < number_of_attempts. \<not> propagated dns ''8.8.8.8'' fqdn token a"
  shows "fst (public_loop dns fqdn token [0..<number_of_attempts] st) = False"
    and "attempts ns (snd (public_loop dns fqdn token [0..<number_of_attempts] st)) =
           (if ns = ''8.8.8.8'' then number_of_attempts else 0)"
proof -
  have all: "\<forall>a \<in> set [0..<number_of_attempts]. \<not> propagated dns ''8.8.8.8'' fqdn token a"
    using assms by simp
  have ne: "[0..<number_of_attempts] \<noteq> []" by (simp add: number_of_attempts_def)
  show "fst (public_loop dns fqdn token [0..<number_of_attempts] st) = False"
    using public_loop_never [OF all] ne by simp
  show "attempts ns (snd (public_loop dns fqdn token [0..<number_of_attempts] st)) =
           (if ns = ''8.8.8.8'' then number_of_attempts else 0)"
    using public_loop_never [OF all, where ns = ns] by simp
qed

lemma wait_for_dns_change_events:
  "snd (wait_for_dns_change dns1 dns2 (fqdn, token) acct) =
     snd (authoritative_loop dns1 fqdn token [0..<number_of_attempts] False) @
     (if fst (authoritative_loop dns1 fqdn token [0..<number_of_attempts] False)
      then snd (public_loop dns2 fqdn token [0..<number_of_attempts] True) @
           (if fst (public_loop dns2 fqdn token [0..<number_of_attempts] True) then []
            else [Metric ''wait_for_dns_change_fail'', SentryCapture,
                  Metric ''wait_for_dns_change_error''])
      else [Metric ''wait_for_dns_change_fail'', SentryCapture,
            Metric ''wait_for_dns_change_error''])"
  by (simp add: wait_for_dns_change_def split_beta)

lemma wait_for_dns_change_returns:
  "fst (wait_for_dns_change dns1 dns2 cid acct) = Inr ()"
  by (simp add: wait_for_dns_change_def split_beta)


lemma attempts_authoritative_other:
  "ns \<noteq> ''156.154.64.154'' \<Longrightarrow>
   attempts ns (snd (authoritative_loop dns fqdn token as st)) = 0"
proof (induction as arbitrary: st)
  case Nil
  then show ?case by (simp add: attempts_Nil)
next
  case (Cons a as)
  obtain b ev where h: "has_dns_propagated (dns a) fqdn token ''156.154.64.154'' = (b, ev)"
    by (cases "has_dns_propagated (dns a) fqdn token ''156.154.64.154''")
  have ev: "attempts ns ev = 0"
    using attempts_has_dns_propagated [of ns "dns a" fqdn token "''156.154.64.154''"] h Cons.prems
    by simp
  show ?case
    using Cons.IH [OF Cons.prems, of b] Cons.IH [OF Cons.prems, of False] ev
    by (simp add: h split_beta attempts_append attempts_Cons attempts_Nil)
qed

lemma attempts_public_other:
  "ns \<noteq> ''8.8.8.8'' \<Longrightarrow>
   attempts ns (snd (public_loop dns fqdn token as st)) = 0"
proof (induction as arbitrary: st)
  case Nil
  then show ?case by (simp add: attempts_Nil)
next
  case (Cons a as)
  obtain b ev where h: "has_dns_propagated (dns a) fqdn token ''8.8.8.8'' = (b, ev)"
    by (cases "has_dns_propagated (dns a) fqdn token ''8.8.8.8''")
  have ev: "attempts ns ev = 0"
    using attempts_has_dns_propagated [of ns "dns a" fqdn token "''8.8.8.8''"] h Cons.prems
    by simp
  show ?case
    using Cons.IH [OF Cons.prems, of b] Cons.IH [OF Cons.prems, of False] ev
    by (simp add: h split_beta attempts_append attempts_Cons attempts_Nil)
qed

lemma wait_attempts_authoritative:
  "attempts ''156.154.64.154'' (snd (wait_for_dns_change dns1 dns2 (fqdn, token) acct)) =
   attempts ''156.154.64.154'' (snd (authoritative_loop dns1 fqdn token [0..<number_of_attempts] False))"
  by (simp add: wait_for_dns_change_events attempts_append attempts_Cons attempts_Nil
        attempts_public_other)

lemma wait_attempts_public:
  "attempts ''8.8.8.8'' (snd (wait_for_dns_change dns1 dns2 (fqdn, token) acct)) =
   (if fst (authoritative_loop dns1 fqdn token [0..<number_of_attempts] False)
    then attempts ''8.8.8.8'' (snd (public_loop dns2 fqdn token [0..<number_of_attempts] True))
    else 0)"
  by (simp add: wait_for_dns_change_events attempts_append attempts_Cons attempts_Nil
        attempts_authoritative_other)

lemma wait_fail_metric:
  "Metric ''wait_for_dns_change_fail'' \<in> set (snd (wait_for_dns_change dns1 dns2 (fqdn, token) acct))
   \<longleftrightarrow> \<not> (fst (authoritative_loop dns1 fqdn token [0..<number_of_attempts] False) \<and>
          fst (public_loop dns2 fqdn token [0..<number_of_attempts] True))"
proof -
  have q: "\<not> quiet (Metric ''wait_for_dns_change_fail'')" by (simp add: quiet_def)
  have a: "Metric ''wait_for_dns_change_fail'' \<notin>
      set (snd (authoritative_loop dns1 fqdn token [0..<number_of_attempts] False))"
    using quiet_authoritative_loop q by blast
  have b: "Metric ''wait_for_dns_change_fail'' \<notin>
      set (snd (public_loop dns2 fqdn token [0..<number_of_attempts] True))"
    using quiet_public_loop q by blast
  show ?thesis using a b by (simp add: wait_for_dns_change_events)
qed

lemma wait_for_changes_ultradns:
  "fst (wait_for_changes (ultradns_wait_op dns1 dns2) p acct cids (s, ev)) = Inr ()"
proof (induction cids arbitrary: s ev)
  case Nil
  then show ?case by simp
next
  case (Cons c cids)
  show ?case
    using Cons.IH
    by (simp add: ultradns_wait_op_def split_beta wait_for_dns_change_returns)
qed

lemma quiet_wait_for_dns_change:
  assumes "e \<in> set (snd (wait_for_dns_change dns1 dns2 cid acct))"
  shows "(\<forall>rq. e \<noteq> HttpRequest rq) \<and> (\<forall>c. e \<noteq> Call c)"
proof -
  obtain fqdn token where cid: "cid = (fqdn, token)" by (cases cid)
  have "quiet e \<or> e = Metric ''wait_for_dns_change_fail'' \<or> e = SentryCapture \<or>
        e = Metric ''wait_for_dns_change_error''"
    using assms quiet_authoritative_loop quiet_public_loop
    unfolding cid wait_for_dns_change_events
    by (auto split: if_splits)
  then show ?thesis by (auto simp: quiet_def)
qed

lemma get_zone_name_fields:
  "rrsets (snd (get_zone_name d s)) = rrsets s"
  "fault (snd (get_zone_name d s)) = fault s"
  "zone_pages (snd (get_zone_name d s)) = zone_pages s"
  by (simp_all add: get_zone_name_def get_zones_def ultradns_get_zones_def emit_def Let_def
        split: option.splits)








lemma shared_service_zone:
  "fst (get_zone_name ''_acme-challenge.foo.example.com'' shared_service) = Inr ''example.com''"
  by (simp add: shared_service_def get_zone_name_def get_zones_def ultradns_get_zones_def
        emit_def endswith_def count_dot_def)

lemma shared_service_node:
  "node_of ''_acme-challenge.foo.example.com'' ''example.com'' = ''_acme-challenge.foo''"
  by (simp add: node_of_def slice_to_neg_def)

lemma ultradns_post_error_keeps:
  "fst (ultradns_post path rd s) \<noteq> Inr () \<Longrightarrow>
   rrsets (snd (ultradns_post path rd s)) = rrsets s"
  by (auto simp: ultradns_post_def Let_def emit_def split: option.splits if_splits)

lemma get_dns_challenges_loop_filter:
  "get_dns_challenges_loop dv w authorizations =
     concat (map (\<lambda>a. filter (\<lambda>c. chall c = DNS01) (challenges a))
       (filter (\<lambda>a. lower (identifier_value a) = lower dv \<and> wildcard a = w) authorizations))"
  by (induction authorizations) auto

lemma get_authorizations_extension:
  "get_authorizations extension_handler ultradns_create_op False (\<lambda>d. CnameException)
     (authz created_record) [''foo.example.com''] example_service =
   (Inr [created_record], extension_handler,
    example_service\<lparr>rrsets := [(''example.com'', ''_acme-challenge.foo.example.com.validation'')
                              \<mapsto> [''token-plain'']],
                    trace := [HttpRequest ListZones, HttpRequest ListZones,
                              HttpRequest (PostRRSet (''example.com'',
                                ''_acme-challenge.foo.example.com.validation'') [''token-plain'']),
                              LogDebug ''TXT record created'']\<rparr>,
    [Call (CreateTxtRecord Ultradns ''_acme-challenge.foo.example.com.validation.example.com''
             ''token-plain'' (Some ''2''))])"
proof -
  have l: "lower ''foo.example.com'' = ''foo.example.com''" by code_simp
  have g: "get_dns_challenges ''foo.example.com'' (authz created_record) = [challenge_plain]"
    by (simp add: get_dns_challenges_def strip_wildcard_def startswith_def created_record_def l
          challenge_plain_def)
  have c: "create_txt_record ''_acme-challenge.foo.example.com.validation.example.com''
             ''token-plain'' (Some ''2'') example_service =
      (Inr (''_acme-challenge.foo.example.com.validation.example.com'', ''token-plain''),
       example_service\<lparr>rrsets := [(''example.com'', ''_acme-challenge.foo.example.com.validation'')
                              \<mapsto> [''token-plain'']],
                    trace := [HttpRequest ListZones, HttpRequest ListZones,
                              HttpRequest (PostRRSet (''example.com'',
                                ''_acme-challenge.foo.example.com.validation'') [''token-plain'']),
                              LogDebug ''TXT record created'']\<rparr>)"
    by (simp add: create_txt_record_def get_zone_name_def get_zones_def ultradns_get_zones_def
          ultradns_post_def example_service_def emit_def endswith_def count_dot_def Let_def
          slice_to_neg_def)
  have s: "start_dns_challenge ultradns_create_op (Some ''2'') ''foo.example.com'' ''foo.example.com''
             Ultradns (authz created_record)
             (Some [''acme_challenge_extension'' \<mapsto> ''.validation.example.com'']) example_service =
      (Inr created_record,
       example_service\<lparr>rrsets := [(''example.com'', ''_acme-challenge.foo.example.com.validation'')
                              \<mapsto> [''token-plain'']],
                    trace := [HttpRequest ListZones, HttpRequest ListZones,
                              HttpRequest (PostRRSet (''example.com'',
                                ''_acme-challenge.foo.example.com.validation'') [''token-plain'']),
                              LogDebug ''TXT record created'']\<rparr>,
       [Call (CreateTxtRecord Ultradns ''_acme-challenge.foo.example.com.validation.example.com''
                ''token-plain'' (Some ''2''))])"
    using c
    by (simp add: start_dns_challenge_def g strip_wildcard_def startswith_def
          maybe_add_extension_def validation_domain_name_def ultradns_create_op_def Let_def
          challenge_plain_def)
       (simp add: created_record_def challenge_plain_def)
  show ?thesis
    using s
    by (simp add: get_authorizations_def extension_handler_def provider_extension_def
          get_dns_provider_def)
qed

subsection \<open>Provider resolution\<close>

text \<open>
  C2. For every domain and every configured list of providers,
  \<^verbatim>\<open>autodetect_dns_providers\<close> stores for the domain (in the dictionary it returns) exactly
  the providers that own a matching suffix of maximal length over all providers, a suffix
  matching when it equals the domain or the domain ends with a dot followed by the suffix;
  a provider matching only at a shorter length is left out, and the stored list is empty
  if and only if no provider owns a suffix of the domain.
\<close>

theorem autodetect_dns_providers_longest_suffix:
  "\<exists>found. fst (autodetect_dns_providers h d) d = Some found \<and>
     set found =
       {p \<in> set (all_dns_providers h).
          \<exists>nm \<in> set (owned p). owns nm d \<and>
            (\<forall>q \<in> set (all_dns_providers h). \<forall>nm' \<in> set (owned q).
               owns nm' d \<longrightarrow> length nm' \<le> length nm)} \<and>
     (found = [] \<longleftrightarrow>
        \<not> (\<exists>p \<in> set (all_dns_providers h). \<exists>nm \<in> set (owned p). owns nm d))"
proof -
  let ?ps = "all_dns_providers h"
  let ?S = "{(q, nm). q \<in> set ?ps \<and> nm \<in> set (owned q) \<and> owns nm d}"
  obtain found m where res: "providers_loop d ?ps ([], 0) = (found, m)"
    by (cases "providers_loop d ?ps ([], 0)")
  have t: "tracked ?S ([], 0) (found, m)"
    using providers_loop_tracked [of ?ps d "([], 0)"] by (simp add: res)
  have le: "\<And>q nm. (q, nm) \<in> ?S \<Longrightarrow> length nm \<le> m"
    using t unfolding tracked_def by auto
  have hit: "m = 0 \<or> (\<exists>(q, nm) \<in> ?S. length nm = m)"
    using t unfolding tracked_def by simp
  have fnd: "set found = {q. \<exists>nm. (q, nm) \<in> ?S \<and> length nm = m}"
    using t unfolding tracked_def by auto
  have top: "length nm = m" if "(q, nm) \<in> ?S" and "\<And>q' nm'. (q', nm') \<in> ?S \<Longrightarrow> length nm' \<le> length nm"
    for q nm
  proof -
    have "length nm \<le> m" using that(1) by (rule le)
    moreover have "m \<le> length nm"
      using hit that(2) by auto
    ultimately show ?thesis by simp
  qed
  have set_eq: "set found =
       {p \<in> set ?ps. \<exists>nm \<in> set (owned p). owns nm d \<and>
            (\<forall>q \<in> set ?ps. \<forall>nm' \<in> set (owned q). owns nm' d \<longrightarrow> length nm' \<le> length nm)}"
    (is "_ = ?R")
  proof (intro set_eqI iffI)
    fix p assume "p \<in> set found"
    then obtain nm where "(p, nm) \<in> ?S" "length nm = m" using fnd by auto
    then show "p \<in> ?R" using le by auto
  next
    fix p assume "p \<in> ?R"
    then obtain nm where nm: "p \<in> set ?ps" "nm \<in> set (owned p)" "owns nm d"
      and mx: "\<forall>q \<in> set ?ps. \<forall>nm' \<in> set (owned q). owns nm' d \<longrightarrow> length nm' \<le> length nm"
      by auto
    have "(p, nm) \<in> ?S" using nm by simp
    moreover have "length nm = m"
      by (rule top [of p nm]) (use nm mx in auto)
    ultimately show "p \<in> set found" using fnd by auto
  qed
  have empty_iff: "found = [] \<longleftrightarrow> \<not> (\<exists>p \<in> set ?ps. \<exists>nm \<in> set (owned p). owns nm d)"
  proof
    assume "found = []"
    then have none: "\<And>q nm. (q, nm) \<in> ?S \<Longrightarrow> length nm \<noteq> m" using fnd by auto
    show "\<not> (\<exists>p \<in> set ?ps. \<exists>nm \<in> set (owned p). owns nm d)"
    proof
      assume "\<exists>p \<in> set ?ps. \<exists>nm \<in> set (owned p). owns nm d"
      then obtain p nm where in_S: "(p, nm) \<in> ?S" by auto
      from hit show False
      proof
        assume "m = 0"
        then have "length nm = m" using le [OF in_S] by simp
        then show False using none [OF in_S] by simp
      next
        assume "\<exists>(q, nm) \<in> ?S. length nm = m"
        then show False using none by auto
      qed
    qed
  next
    assume "\<not> (\<exists>p \<in> set ?ps. \<exists>nm \<in> set (owned p). owns nm d)"
    then have "set found = {}" using fnd by auto
    then show "found = []" by simp
  qed
  have "fst (autodetect_dns_providers h d) d = Some found"
    by (simp add: autodetect_dns_providers_def Let_def res)
  then show ?thesis using set_eq empty_iff by blast
qed


theorem autodetect_dns_providers_longest_suffix_witness:
  "\<exists>found. fst (autodetect_dns_providers example_handler ''foo.example.com'') ''foo.example.com''
       = Some found \<and> set found = {provider_example, provider_backup} \<and> found \<noteq> []"
proof -
  let ?d = "''foo.example.com''"
  let ?ps = "all_dns_providers example_handler"
  have ps: "set ?ps = {provider_com, provider_example, provider_backup}"
    by (simp add: example_handler_def)
  have ne: "provider_com \<noteq> provider_example" "provider_com \<noteq> provider_backup"
    by (simp_all add: provider_com_def provider_example_def provider_backup_def)
  from autodetect_dns_providers_longest_suffix [of example_handler ?d]
  obtain found where f: "fst (autodetect_dns_providers example_handler ?d) ?d = Some found"
    and s: "set found =
       {p \<in> set ?ps.
          \<exists>nm \<in> set (owned p). owns nm ?d \<and>
            (\<forall>q \<in> set ?ps. \<forall>nm' \<in> set (owned q).
               owns nm' ?d \<longrightarrow> length nm' \<le> length nm)}"
    and e: "found = [] \<longleftrightarrow>
        \<not> (\<exists>p \<in> set ?ps. \<exists>nm \<in> set (owned p). owns nm ?d)"
    by blast
  have "set found = {provider_example, provider_backup}"
    unfolding s ps
    apply (simp add: owned_com owned_example owned_backup owns_examples ne)
    apply (auto simp: owned_com owned_example owned_backup owns_examples)
    done
  moreover have "found \<noteq> []"
    unfolding e ps by (simp add: owned_com owns_examples)
  ultimately show ?thesis using f by blast
qed

subsection \<open>Challenge selection\<close>

text \<open>
  C9. For every host and every list of authorizations, \<^verbatim>\<open>get_dns_challenges\<close> selects a
  challenge exactly when it is a DNS-01 challenge of an authorization whose wildcard flag
  agrees with the presence of the wildcard prefix of the host and whose identifier is the
  host without that prefix (compared without regard to letter case): a wildcard host
  \<^verbatim>\<open>*.example.com\<close> selects only from authorizations with the wildcard flag set and
  identifier \<^verbatim>\<open>example.com\<close>, the host \<^verbatim>\<open>example.com\<close> only from those without the flag.
\<close>

theorem get_dns_challenges_wildcard_agreement:
  "c \<in> set (get_dns_challenges host authorizations) \<longleftrightarrow>
     (\<exists>a \<in> set authorizations.
        lower (identifier_value a) = lower (if startswith host ''*.'' then drop 2 host else host) \<and>
        (wildcard a \<longleftrightarrow> startswith host ''*.'') \<and>
        c \<in> set (challenges a) \<and> chall c = DNS01)"
  by (auto simp: get_dns_challenges_def strip_wildcard_def get_dns_challenges_loop_mem
        numeral_2_eq_2)

theorem get_dns_challenges_wildcard_agreement_witness:
  "challenge_wild \<in> set (get_dns_challenges ''*.example.com'' example_authorizations) \<and>
   challenge_plain \<notin> set (get_dns_challenges ''*.example.com'' example_authorizations) \<and>
   challenge_plain \<in> set (get_dns_challenges ''example.com'' example_authorizations) \<and>
   challenge_wild \<notin> set (get_dns_challenges ''example.com'' example_authorizations)"
proof -
  have w: "startswith ''*.example.com'' ''*.''" and n: "\<not> startswith ''example.com'' ''*.''"
    by (simp_all add: startswith_def)
  have ne: "challenge_plain \<noteq> challenge_wild" "challenge_http \<noteq> challenge_wild"
    "challenge_http \<noteq> challenge_plain"
    by (simp_all add: challenge_plain_def challenge_wild_def challenge_http_def)
  have dns: "chall challenge_plain = DNS01" "chall challenge_wild = DNS01"
    by (simp_all add: challenge_plain_def challenge_wild_def)
  show ?thesis
    using get_dns_challenges_wildcard_agreement [of challenge_wild "''*.example.com''" example_authorizations]
      get_dns_challenges_wildcard_agreement [of challenge_plain "''*.example.com''" example_authorizations]
      get_dns_challenges_wildcard_agreement [of challenge_plain "''example.com''" example_authorizations]
      get_dns_challenges_wildcard_agreement [of challenge_wild "''example.com''" example_authorizations]
    by (simp add: w n ne ne [symmetric] dns example_authorizations_def lower_example)
qed

subsection \<open>Propagation polling\<close>

text \<open>
  C4. With each resolver query of \<^verbatim>\<open>wait_for_dns_change\<close> answered by a stub: if the stub
  of the authoritative phase first reports success on attempt \<open>K \<le> 20\<close>, the first loop
  ends with the status true and exactly \<open>K\<close> queries were sent to the authoritative name
  server; if it never reports success, exactly 20 queries were sent, the status is false,
  no query goes to the public resolver and the failure is reported. The second loop, which
  runs only after a successful first one, has the same structure with a budget of 20
  attempts of its own: \<open>K'\<close> queries when its stub first succeeds on attempt \<open>K'\<close>, and 20
  queries followed by the failure report when it never does.
\<close>

theorem wait_for_dns_change_attempts:
  "(1 \<le> K \<and> K \<le> 20 \<and> propagated dns1 ''156.154.64.154'' fqdn token (K - 1) \<and>
    (\<forall>a < K - 1. \<not> propagated dns1 ''156.154.64.154'' fqdn token a) \<longrightarrow>
      fst (authoritative_loop dns1 fqdn token [0..<number_of_attempts] False) \<and>
      attempts ''156.154.64.154'' (snd (wait_for_dns_change dns1 dns2 (fqdn, token) acct)) = K) \<and>
   ((\<forall>a < 20. \<not> propagated dns1 ''156.154.64.154'' fqdn token a) \<longrightarrow>
      \<not> fst (authoritative_loop dns1 fqdn token [0..<number_of_attempts] False) \<and>
      attempts ''156.154.64.154'' (snd (wait_for_dns_change dns1 dns2 (fqdn, token) acct)) = 20 \<and>
      attempts ''8.8.8.8'' (snd (wait_for_dns_change dns1 dns2 (fqdn, token) acct)) = 0 \<and>
      Metric ''wait_for_dns_change_fail'' \<in>
        set (snd (wait_for_dns_change dns1 dns2 (fqdn, token) acct))) \<and>
   (fst (authoritative_loop dns1 fqdn token [0..<number_of_attempts] False) \<and>
    1 \<le> K' \<and> K' \<le> 20 \<and> propagated dns2 ''8.8.8.8'' fqdn token (K' - 1) \<and>
    (\<forall>a < K' - 1. \<not> propagated dns2 ''8.8.8.8'' fqdn token a) \<longrightarrow>
      attempts ''8.8.8.8'' (snd (wait_for_dns_change dns1 dns2 (fqdn, token) acct)) = K' \<and>
      Metric ''wait_for_dns_change_fail'' \<notin>
        set (snd (wait_for_dns_change dns1 dns2 (fqdn, token) acct))) \<and>
   (fst (authoritative_loop dns1 fqdn token [0..<number_of_attempts] False) \<and>
    (\<forall>a < 20. \<not> propagated dns2 ''8.8.8.8'' fqdn token a) \<longrightarrow>
      attempts ''8.8.8.8'' (snd (wait_for_dns_change dns1 dns2 (fqdn, token) acct)) = 20 \<and>
      Metric ''wait_for_dns_change_fail'' \<in>
        set (snd (wait_for_dns_change dns1 dns2 (fqdn, token) acct)))"
proof (intro conjI impI)
  assume h: "1 \<le> K \<and> K \<le> 20 \<and> propagated dns1 ''156.154.64.154'' fqdn token (K - 1) \<and>
    (\<forall>a < K - 1. \<not> propagated dns1 ''156.154.64.154'' fqdn token a)"
  then have k: "1 \<le> K" "K \<le> number_of_attempts"
    and p: "propagated dns1 ''156.154.64.154'' fqdn token (K - 1)"
    and n: "\<forall>a < K - 1. \<not> propagated dns1 ''156.154.64.154'' fqdn token a"
    by (simp_all add: number_of_attempts_def)
  show "fst (authoritative_loop dns1 fqdn token [0..<number_of_attempts] False)"
    using authoritative_attempts_first(1) [OF k p n] by simp
  show "attempts ''156.154.64.154'' (snd (wait_for_dns_change dns1 dns2 (fqdn, token) acct)) = K"
    using authoritative_attempts_first(2) [OF k p n, where ns = "''156.154.64.154''"]
    by (simp add: wait_attempts_authoritative)
next
  assume "\<forall>a < 20. \<not> propagated dns1 ''156.154.64.154'' fqdn token a"
  then have n: "\<forall>a < number_of_attempts. \<not> propagated dns1 ''156.154.64.154'' fqdn token a"
    by (simp add: number_of_attempts_def)
  show f: "\<not> fst (authoritative_loop dns1 fqdn token [0..<number_of_attempts] False)"
    using authoritative_attempts_never(1) [OF n] by simp
  show "attempts ''156.154.64.154'' (snd (wait_for_dns_change dns1 dns2 (fqdn, token) acct)) = 20"
    using authoritative_attempts_never(2) [OF n, where ns = "''156.154.64.154''"]
    by (simp add: wait_attempts_authoritative number_of_attempts_def)
  show "attempts ''8.8.8.8'' (snd (wait_for_dns_change dns1 dns2 (fqdn, token) acct)) = 0"
    using f by (simp add: wait_attempts_public)
  show "Metric ''wait_for_dns_change_fail'' \<in>
        set (snd (wait_for_dns_change dns1 dns2 (fqdn, token) acct))"
    using f by (simp add: wait_fail_metric)
next
  assume h: "fst (authoritative_loop dns1 fqdn token [0..<number_of_attempts] False) \<and>
    1 \<le> K' \<and> K' \<le> 20 \<and> propagated dns2 ''8.8.8.8'' fqdn token (K' - 1) \<and>
    (\<forall>a < K' - 1. \<not> propagated dns2 ''8.8.8.8'' fqdn token a)"
  then have f: "fst (authoritative_loop dns1 fqdn token [0..<number_of_attempts] False)"
    and k: "1 \<le> K'" "K' \<le> number_of_attempts"
    and p: "propagated dns2 ''8.8.8.8'' fqdn token (K' - 1)"
    and n: "\<forall>a < K' - 1. \<not> propagated dns2 ''8.8.8.8'' fqdn token a"
    by (simp_all add: number_of_attempts_def)
  show "attempts ''8.8.8.8'' (snd (wait_for_dns_change dns1 dns2 (fqdn, token) acct)) = K'"
    using public_attempts_first(2) [OF k p n, where ns = "''8.8.8.8''"] f
    by (simp add: wait_attempts_public)
  show "Metric ''wait_for_dns_change_fail'' \<notin>
        set (snd (wait_for_dns_change dns1 dns2 (fqdn, token) acct))"
    using public_attempts_first(1) [OF k p n] f by (simp add: wait_fail_metric)
next
  assume h: "fst (authoritative_loop dns1 fqdn token [0..<number_of_attempts] False) \<and>
    (\<forall>a < 20. \<not> propagated dns2 ''8.8.8.8'' fqdn token a)"
  then have f: "fst (authoritative_loop dns1 fqdn token [0..<number_of_attempts] False)"
    and n: "\<forall>a < number_of_attempts. \<not> propagated dns2 ''8.8.8.8'' fqdn token a"
    by (simp_all add: number_of_attempts_def)
  show "attempts ''8.8.8.8'' (snd (wait_for_dns_change dns1 dns2 (fqdn, token) acct)) = 20"
    using public_attempts_never(2) [OF n, where ns = "''8.8.8.8''"] f
    by (simp add: wait_attempts_public number_of_attempts_def)
  show "Metric ''wait_for_dns_change_fail'' \<in>
        set (snd (wait_for_dns_change dns1 dns2 (fqdn, token) acct))"
    using public_attempts_never(1) [OF n] f by (simp add: wait_fail_metric)
qed

theorem wait_for_dns_change_attempts_witness:
  "attempts ''156.154.64.154''
     (snd (wait_for_dns_change (dns_after 2 ''tok'') dns_never (''_acme-challenge.foo.example.com'', ''tok'') None)) = 3 \<and>
   attempts ''8.8.8.8''
     (snd (wait_for_dns_change (dns_after 2 ''tok'') dns_never (''_acme-challenge.foo.example.com'', ''tok'') None)) = 20 \<and>
   attempts ''8.8.8.8''
     (snd (wait_for_dns_change (dns_after 2 ''tok'') (dns_after 4 ''tok'') (''_acme-challenge.foo.example.com'', ''tok'') None)) = 5 \<and>
   attempts ''156.154.64.154''
     (snd (wait_for_dns_change dns_never dns_never (''_acme-challenge.foo.example.com'', ''tok'') None)) = 20 \<and>
   attempts ''8.8.8.8''
     (snd (wait_for_dns_change dns_never dns_never (''_acme-challenge.foo.example.com'', ''tok'') None)) = 0"
proof -
  let ?fq = "''_acme-challenge.foo.example.com''"
  have a: "\<And>ns a. propagated (dns_after 2 ''tok'') ns ?fq ''tok'' a \<longleftrightarrow> 2 \<le> a"
    by (simp add: propagated_def has_dns_propagated_def dns_after_def)
  have b: "\<And>ns a. propagated (dns_after 4 ''tok'') ns ?fq ''tok'' a \<longleftrightarrow> 4 \<le> a"
    by (simp add: propagated_def has_dns_propagated_def dns_after_def)
  have c: "\<And>ns a. \<not> propagated dns_never ns ?fq ''tok'' a"
    by (simp add: propagated_def has_dns_propagated_def dns_never_def)
  show ?thesis
    using wait_for_dns_change_attempts [of 3 "dns_after 2 ''tok''" ?fq "''tok''" dns_never None 1]
      wait_for_dns_change_attempts [of 3 "dns_after 2 ''tok''" ?fq "''tok''" "dns_after 4 ''tok''" None 5]
      wait_for_dns_change_attempts [of 1 dns_never ?fq "''tok''" dns_never None 1]
    by (simp add: a b c)
qed

text \<open>
  C5, as amended. When the polling budget is exhausted without the expected TXT value being
  observed, \<^verbatim>\<open>wait_for_dns_change\<close> reports the outcome through its failure metrics and
  an error-tracker capture and returns normally, as it does after success: no error
  reaches \<^verbatim>\<open>complete_dns_challenge\<close>, whose loop over the change ids runs to its end. The
  poller sends no request to the DNS provider and calls no plugin, so it does not delete
  the created TXT record. The second theorem below is an instance; the third shows the
  caller answering the ACME challenge after a poll that never saw the value.
\<close>

theorem wait_for_dns_change_reports_and_returns:
  "fst (wait_for_dns_change dns1 dns2 (fqdn, token) acct) = Inr () \<and>
   fst (wait_for_changes (ultradns_wait_op dns1 dns2) p acct cids (s, ev)) = Inr () \<and>
   (\<forall>e \<in> set (snd (wait_for_dns_change dns1 dns2 (fqdn, token) acct)).
      (\<forall>rq. e \<noteq> HttpRequest rq) \<and> (\<forall>c. e \<noteq> Call c)) \<and>
   ((\<forall>a < 20. \<not> propagated dns1 ''156.154.64.154'' fqdn token a) \<or>
    (\<forall>a < 20. \<not> propagated dns2 ''8.8.8.8'' fqdn token a) \<longrightarrow>
      Metric ''wait_for_dns_change_fail'' \<in>
        set (snd (wait_for_dns_change dns1 dns2 (fqdn, token) acct)) \<and>
      SentryCapture \<in> set (snd (wait_for_dns_change dns1 dns2 (fqdn, token) acct)))"
proof (intro conjI ballI impI)
  show "fst (wait_for_dns_change dns1 dns2 (fqdn, token) acct) = Inr ()"
    by (rule wait_for_dns_change_returns)
  show "fst (wait_for_changes (ultradns_wait_op dns1 dns2) p acct cids (s, ev)) = Inr ()"
    by (rule wait_for_changes_ultradns)
next
  fix e assume "e \<in> set (snd (wait_for_dns_change dns1 dns2 (fqdn, token) acct))"
  then show "\<forall>rq. e \<noteq> HttpRequest rq" "\<forall>c. e \<noteq> Call c"
    using quiet_wait_for_dns_change by blast+
next
  assume h: "(\<forall>a < 20. \<not> propagated dns1 ''156.154.64.154'' fqdn token a) \<or>
    (\<forall>a < 20. \<not> propagated dns2 ''8.8.8.8'' fqdn token a)"
  have nf: "\<not> (fst (authoritative_loop dns1 fqdn token [0..<number_of_attempts] False) \<and>
          fst (public_loop dns2 fqdn token [0..<number_of_attempts] True))"
    using h authoritative_attempts_never(1) [of dns1 fqdn token False]
      public_attempts_never(1) [of dns2 fqdn token True]
    by (auto simp: number_of_attempts_def)
  show "Metric ''wait_for_dns_change_fail'' \<in>
        set (snd (wait_for_dns_change dns1 dns2 (fqdn, token) acct))"
    using nf by (simp add: wait_fail_metric)
  show "SentryCapture \<in> set (snd (wait_for_dns_change dns1 dns2 (fqdn, token) acct))"
    using nf by (auto simp: wait_for_dns_change_events)
qed

theorem wait_for_dns_change_reports_and_returns_witness:
  "fst (wait_for_dns_change dns_never dns_never (''_acme-challenge.foo.example.com'', ''token-plain'') None) = Inr () \<and>
   Metric ''wait_for_dns_change_fail'' \<in>
     set (snd (wait_for_dns_change dns_never dns_never (''_acme-challenge.foo.example.com'', ''token-plain'') None)) \<and>
   HttpRequest (DeleteRRSet (''example.com'', ''_acme-challenge.foo'')) \<notin>
     set (snd (wait_for_dns_change dns_never dns_never (''_acme-challenge.foo.example.com'', ''token-plain'') None))"
proof -
  have c: "\<And>ns a. \<not> propagated dns_never ns ''_acme-challenge.foo.example.com'' ''token-plain'' a"
    by (simp add: propagated_def has_dns_propagated_def dns_never_def)
  show ?thesis
    using wait_for_dns_change_reports_and_returns
      [of dns_never dns_never "''_acme-challenge.foo.example.com''" "''token-plain''" None
          Ultradns "[]" example_service "[]"]
    by (auto simp: c)
qed

theorem propagation_timeout_not_surfaced:
  "attempts ''156.154.64.154''
     (snd (wait_for_dns_change dns_never dns_never
             (''_acme-challenge.foo.example.com'', ''token-plain'') (Some ''2''))) = 20 \<and>
   attempts ''8.8.8.8''
     (snd (wait_for_dns_change dns_never dns_never
             (''_acme-challenge.foo.example.com'', ''token-plain'') (Some ''2''))) = 0 \<and>
   fst (complete_dns_challenge polling_handler (ultradns_wait_op dns_never dns_never)
          (\<lambda>c t. True) (\<lambda>c w. (Inr (), w)) example_record example_service) = Inr () \<and>
   AnswerChallenge ''token-plain'' \<in>
     set (snd (snd (complete_dns_challenge polling_handler (ultradns_wait_op dns_never dns_never)
          (\<lambda>c t. True) (\<lambda>c w. (Inr (), w)) example_record example_service)))"
proof -
  have c: "\<And>ns a. \<not> propagated dns_never ns ''_acme-challenge.foo.example.com'' ''token-plain'' a"
    by (simp add: propagated_def has_dns_propagated_def dns_never_def)
  have w: "\<And>cid acct s. fst (ultradns_wait_op dns_never dns_never Ultradns cid acct s) = Inr ()"
    by (simp add: ultradns_wait_op_def split_beta wait_for_dns_change_returns)
  obtain s' where w': "ultradns_wait_op dns_never dns_never Ultradns
      (''_acme-challenge.foo.example.com'', ''token-plain'') (Some ''2'') example_service = (Inr (), s')"
    using w [of "(''_acme-challenge.foo.example.com'', ''token-plain'')" "Some ''2''" example_service]
    by (cases "ultradns_wait_op dns_never dns_never Ultradns
      (''_acme-challenge.foo.example.com'', ''token-plain'') (Some ''2'') example_service") simp
  have "complete_dns_challenge polling_handler (ultradns_wait_op dns_never dns_never)
          (\<lambda>c t. True) (\<lambda>c w. (Inr (), w)) example_record example_service =
        (Inr (), s', [Call (WaitForDnsChange Ultradns (''_acme-challenge.foo.example.com'', ''token-plain'') (Some ''2'')),
                      Sleep 5, AnswerChallenge ''token-plain''])"
    by (simp add: complete_dns_challenge_def polling_handler_def example_record_def
          provider_example_def get_dns_provider_def w' challenge_plain_def)
  moreover have "\<forall>a < number_of_attempts.
      \<not> propagated dns_never ''156.154.64.154'' ''_acme-challenge.foo.example.com'' ''token-plain'' a"
    using c by simp
  then have "attempts ''156.154.64.154''
     (snd (wait_for_dns_change dns_never dns_never
             (''_acme-challenge.foo.example.com'', ''token-plain'') (Some ''2''))) = 20"
    and "attempts ''8.8.8.8''
     (snd (wait_for_dns_change dns_never dns_never
             (''_acme-challenge.foo.example.com'', ''token-plain'') (Some ''2''))) = 0"
    using authoritative_attempts_never [where dns = dns_never and st = False]
    by (simp_all add: wait_attempts_authoritative wait_attempts_public number_of_attempts_def)
  ultimately show ?thesis by simp
qed

subsection \<open>TXT record sets\<close>




text \<open>
  C8, as amended. \<^verbatim>\<open>create_txt_record\<close> logs and swallows every error of the request
  that creates the record, a duplicate-record conflict and any other failure of the
  service alike: it still returns the change id, the record sets being left as they
  were. It fails only when the zone lookup fails, with the error of that lookup. The
  second theorem below is an instance with a duplicate record and a missing zone; the
  third shows a server error of the POST being swallowed.
\<close>

theorem create_txt_record_swallows_post_errors:
  "(\<forall>z. fst (get_zone_name d s) = Inr z \<longrightarrow>
      fst (create_txt_record d token acct s) = Inr (node_of d z @ ''.'' @ z, token) \<and>
      (fst (ultradns_post (z, node_of d z) [token] (snd (get_zone_name d s))) \<noteq> Inr () \<longrightarrow>
         rrsets (snd (create_txt_record d token acct s)) = rrsets s \<and>
         LogDebug ''Unable to add record'' \<in> set (trace (snd (create_txt_record d token acct s))))) \<and>
   (\<forall>e. fst (get_zone_name d s) = Inl e \<longrightarrow> fst (create_txt_record d token acct s) = Inl e)"
proof (intro conjI allI impI)
  fix z assume z: "fst (get_zone_name d s) = Inr z"
  obtain s1 where g: "get_zone_name d s = (Inr z, s1)"
    using z by (cases "get_zone_name d s") simp
  obtain res s2 where p: "ultradns_post (z, node_of d z) [token] s1 = (res, s2)"
    by (cases "ultradns_post (z, node_of d z) [token] s1")
  show "fst (create_txt_record d token acct s) = Inr (node_of d z @ ''.'' @ z, token)"
    using p by (cases res) (simp_all add: create_txt_record_def g Let_def node_of_def [symmetric])
  assume bad: "fst (ultradns_post (z, node_of d z) [token] (snd (get_zone_name d s))) \<noteq> Inr ()"
  then obtain e where res: "res = Inl e" using p g by (cases res) simp_all
  have s2: "rrsets s2 = rrsets s"
    using ultradns_post_error_keeps [of "(z, node_of d z)" "[token]" s1] p res
      get_zone_name_fields(1) [of d s] g by simp
  have c: "create_txt_record d token acct s =
      (Inr (node_of d z @ ''.'' @ z, token), emit [LogDebug ''Unable to add record''] s2)"
    using p res by (simp add: create_txt_record_def g Let_def node_of_def [symmetric])
  show "rrsets (snd (create_txt_record d token acct s)) = rrsets s"
    using s2 by (simp add: c emit_def)
  show "LogDebug ''Unable to add record'' \<in> set (trace (snd (create_txt_record d token acct s)))"
    by (simp add: c emit_def)
next
  fix e assume "fst (get_zone_name d s) = Inl e"
  then obtain s1 where g: "get_zone_name d s = (Inl e, s1)"
    by (cases "get_zone_name d s") simp
  show "fst (create_txt_record d token acct s) = Inl e"
    by (simp add: create_txt_record_def g)
qed

theorem create_txt_record_swallows_post_errors_witness:
  "fst (create_txt_record ''_acme-challenge.foo.example.com'' ''token-a'' None shared_service) =
     Inr (''_acme-challenge.foo.example.com'', ''token-a'') \<and>
   rrsets (snd (create_txt_record ''_acme-challenge.foo.example.com'' ''token-a'' None shared_service)) =
     rrsets shared_service \<and>
   fst (create_txt_record ''_acme-challenge.foo.example.org'' ''token-a'' None shared_service) =
     Inl (ZoneNotFound ''_acme-challenge.foo.example.org'')"
proof -
  have dup: "fst (ultradns_post (''example.com'', ''_acme-challenge.foo'') [''token-a'']
               (snd (get_zone_name ''_acme-challenge.foo.example.com'' shared_service))) \<noteq> Inr ()"
    by (simp add: ultradns_post_def Let_def get_zone_name_fields shared_service_def)
  have nz: "fst (get_zone_name ''_acme-challenge.foo.example.org'' shared_service) =
      Inl (ZoneNotFound ''_acme-challenge.foo.example.org'')"
    by (simp add: shared_service_def get_zone_name_def get_zones_def ultradns_get_zones_def
        emit_def endswith_def count_dot_def)
  show ?thesis
    using create_txt_record_swallows_post_errors
        [of "''_acme-challenge.foo.example.com''" shared_service "''token-a''" None]
      create_txt_record_swallows_post_errors
        [of "''_acme-challenge.foo.example.org''" shared_service "''token-a''" None]
      dup nz
    by (simp add: shared_service_zone shared_service_node)
qed

theorem create_txt_record_backend_error_counterexample:
  "fst (ultradns_post (''example.com'', ''_acme-challenge.foo'') [''token-a'']
         (snd (get_zone_name ''_acme-challenge.foo.example.com'' failing_service))) =
     Inl (HTTPError 500) \<and>
   fst (create_txt_record ''_acme-challenge.foo.example.com'' ''token-a'' None failing_service) =
     Inr (''_acme-challenge.foo.example.com'', ''token-a'') \<and>
   rrsets (snd (create_txt_record ''_acme-challenge.foo.example.com'' ''token-a'' None failing_service))
     (''example.com'', ''_acme-challenge.foo'') = None"
  by (simp add: create_txt_record_def get_zone_name_def get_zones_def ultradns_get_zones_def
        ultradns_post_def failing_service_def emit_def endswith_def count_dot_def Let_def
        slice_to_neg_def)

subsection \<open>Zone matching\<close>

text \<open>
  C1 says that \<^verbatim>\<open>get_zone_name\<close> returns, among the zones that are a suffix of the domain
  on a label boundary (equal to it, or preceded by a dot), the one with the most labels,
  and that it fails when there is none. The code tests \<^verbatim>\<open>domain.endswith(z)\<close> without
  the dot that \<^verbatim>\<open>autodetect_dns_providers\<close> puts in front of the suffix, and starts the
  comparison of dot counts from the empty name. So for the host
  \<^verbatim>\<open>_acme-challenge.badexample.com\<close> and the single zone \<^verbatim>\<open>example.com\<close> it returns that
  zone, which does not contain the host, and the TXT record is then written for
  \<^verbatim>\<open>_acme-challenge.example.com\<close>; and a zone of one label, which owns \<^verbatim>\<open>foo.com\<close>, is
  never chosen.
\<close>

theorem get_zone_name_ignores_label_boundary:
  "fst (get_zone_name ''_acme-challenge.badexample.com'' example_service) = Inr ''example.com'' \<and>
   \<not> owns ''example.com'' ''_acme-challenge.badexample.com'' \<and>
   fst (create_txt_record ''_acme-challenge.badexample.com'' ''token'' None example_service) =
     Inr (''_acme-challenge.example.com'', ''token'') \<and>
   owns ''com'' ''foo.com'' \<and>
   fst (get_zone_name ''foo.com'' shared_service) = Inl (ZoneNotFound ''foo.com'')"
  by (simp add: get_zone_name_def get_zones_def ultradns_get_zones_def create_txt_record_def
        ultradns_post_def example_service_def shared_service_def emit_def endswith_def
        count_dot_def owns_def Let_def slice_to_neg_def)

subsection \<open>Starting a challenge\<close>

text \<open>
  C3 says that without CNAME delegation every TXT record of a domain is created at the
  host with the challenge label prepended exactly once. The loop of
  \<^verbatim>\<open>start_dns_challenge\<close> assigns the prefixed name back to \<^verbatim>\<open>host_to_validate\<close>, so with
  two DNS-01 challenges for the domain the second record is created with the label
  twice, whereas \<^verbatim>\<open>finalize_authorizations\<close> computes the name afresh for each challenge.
\<close>

theorem start_dns_challenge_prepends_label_again:
  "get_dns_challenges ''foo.example.com'' two_challenges = [challenge_plain, challenge_second] \<and>
   snd (snd (start_dns_challenge ultradns_create_op (Some ''2'') ''foo.example.com''
               ''foo.example.com'' Ultradns two_challenges None example_service)) =
     [Call (CreateTxtRecord Ultradns ''_acme-challenge.foo.example.com'' ''token-plain'' (Some ''2'')),
      Call (CreateTxtRecord Ultradns ''_acme-challenge._acme-challenge.foo.example.com''
              ''token-second'' (Some ''2''))] \<and>
   map_sum id change_id
     (fst (start_dns_challenge ultradns_create_op (Some ''2'') ''foo.example.com''
             ''foo.example.com'' Ultradns two_challenges None example_service)) =
     Inr [(''_acme-challenge.foo.example.com'', ''token-plain''),
          (''_acme-challenge._acme-challenge.foo.example.com'', ''token-second'')]"
proof -
  have l: "lower ''foo.example.com'' = ''foo.example.com''" by code_simp
  have g: "get_dns_challenges ''foo.example.com'' two_challenges = [challenge_plain, challenge_second]"
    by (simp add: get_dns_challenges_def strip_wildcard_def startswith_def two_challenges_def l
          challenge_plain_def challenge_http_def challenge_second_def)
  show ?thesis
    by (simp add: start_dns_challenge_def g strip_wildcard_def startswith_def
          maybe_add_extension_def validation_domain_name_def ultradns_create_op_def
          create_txt_record_def get_zone_name_def get_zones_def ultradns_get_zones_def
          ultradns_post_def example_service_def emit_def endswith_def count_dot_def Let_def
          slice_to_neg_def challenge_plain_def challenge_second_def)
qed

subsection \<open>Letter case in challenge selection\<close>

text \<open>
  C10. \<^verbatim>\<open>get_dns_challenges\<close> compares the identifier with the stripped host without
  regard to letter case. For two hosts that are equal up to case and two lists of
  authorizations that differ only in the case of the identifiers, the selection is the
  same, and it is exactly the list of the DNS-01 challenges of those authorizations whose
  identifier equals the stripped host of the other spelling up to case and whose wildcard
  flag agrees with the prefix: an authorization whose identifier differs from the
  stripped host only in letter case is still matched, and nothing else is selected.
\<close>

theorem get_dns_challenges_case_insensitive:
  assumes "lower host = lower host'"
    and "map (\<lambda>a. a\<lparr>identifier_value := lower (identifier_value a)\<rparr>) authorizations =
         map (\<lambda>a. a\<lparr>identifier_value := lower (identifier_value a)\<rparr>) authorizations'"
  shows "get_dns_challenges host authorizations = get_dns_challenges host' authorizations' \<and>
         get_dns_challenges host authorizations =
           concat (map (\<lambda>a. filter (\<lambda>c. chall c = DNS01) (challenges a))
             (filter (\<lambda>a. lower (identifier_value a) = lower (fst (strip_wildcard host')) \<and>
                          wildcard a = snd (strip_wildcard host'))
                authorizations')) \<and>
         (\<forall>a \<in> set authorizations. \<forall>c \<in> set (challenges a).
            lower (identifier_value a) = lower (fst (strip_wildcard host')) \<and>
            wildcard a = snd (strip_wildcard host') \<and> chall c = DNS01 \<longrightarrow>
            c \<in> set (get_dns_challenges host authorizations))"
proof -
  have "strip_wildcard (lower host) = strip_wildcard (lower host')"
    using assms(1) by simp
  then have dv: "lower (fst (strip_wildcard host)) = lower (fst (strip_wildcard host'))"
    and w: "snd (strip_wildcard host) = snd (strip_wildcard host')"
    by (simp_all add: strip_wildcard_lower)
  have eq: "get_dns_challenges host authorizations = get_dns_challenges host' authorizations'"
    using get_dns_challenges_loop_lower [OF dv assms(2), of "snd (strip_wildcard host)"] w
    by (simp add: get_dns_challenges_def split_beta)
  have ex: "get_dns_challenges host' authorizations' =
           concat (map (\<lambda>a. filter (\<lambda>c. chall c = DNS01) (challenges a))
             (filter (\<lambda>a. lower (identifier_value a) = lower (fst (strip_wildcard host')) \<and>
                          wildcard a = snd (strip_wildcard host'))
                authorizations'))"
    by (simp add: get_dns_challenges_def split_beta get_dns_challenges_loop_filter)
  have mem: "\<forall>a \<in> set authorizations. \<forall>c \<in> set (challenges a).
            lower (identifier_value a) = lower (fst (strip_wildcard host')) \<and>
            wildcard a = snd (strip_wildcard host') \<and> chall c = DNS01 \<longrightarrow>
            c \<in> set (get_dns_challenges host authorizations)"
    using dv w by (auto simp: get_dns_challenges_def split_beta get_dns_challenges_loop_mem)
  show ?thesis using eq ex mem by simp
qed

theorem get_dns_challenges_case_insensitive_witness:
  "lower ''*.Example.COM'' = lower ''*.example.com'' \<and>
   get_dns_challenges ''*.Example.COM'' example_authorizations_upper = [challenge_wild] \<and>
   get_dns_challenges ''*.example.com'' example_authorizations = [challenge_wild] \<and>
   challenge_wild \<in> set (get_dns_challenges ''*.Example.COM'' example_authorizations_upper)"
proof -
  have h: "lower ''*.Example.COM'' = lower ''*.example.com''"
    by code_simp
  have a: "map (\<lambda>a. a\<lparr>identifier_value := lower (identifier_value a)\<rparr>) example_authorizations_upper =
         map (\<lambda>a. a\<lparr>identifier_value := lower (identifier_value a)\<rparr>) example_authorizations"
    unfolding example_authorizations_upper_def example_authorizations_def
    by code_simp
  have sw: "strip_wildcard ''*.example.com'' = (''example.com'', True)"
    by (simp add: strip_wildcard_def startswith_def)
  have rhs: "concat (map (\<lambda>a. filter (\<lambda>c. chall c = DNS01) (challenges a))
             (filter (\<lambda>a. lower (identifier_value a) = lower (fst (strip_wildcard ''*.example.com'')) \<and>
                          wildcard a = snd (strip_wildcard ''*.example.com''))
                example_authorizations)) = [challenge_wild]"
    by (simp add: sw lower_example example_authorizations_def challenge_wild_def)
  note t = get_dns_challenges_case_insensitive [OF h a]
  have e1: "get_dns_challenges ''*.Example.COM'' example_authorizations_upper =
      get_dns_challenges ''*.example.com'' example_authorizations"
    using t by (rule conjunct1)
  have e2: "get_dns_challenges ''*.Example.COM'' example_authorizations_upper = [challenge_wild]"
    using conjunct1 [OF conjunct2 [OF t]] rhs by (rule trans)
  have e3: "get_dns_challenges ''*.example.com'' example_authorizations = [challenge_wild]"
    using e1 e2 by (rule subst)
  show ?thesis
    using h e2 e3 by simp
qed

subsection \<open>Cleanup\<close>

text \<open>
  C6 says that \<^verbatim>\<open>cleanup_dns_challenges\<close> attempts a deletion for every record created so
  far, for exactly those records, and never raises. \<^verbatim>\<open>get_authorizations\<close> passes
  \<^verbatim>\<open>dns_provider.options\<close> to \<^verbatim>\<open>start_dns_challenge\<close>, which appends the extension found
  there to the host; \<^verbatim>\<open>cleanup_dns_challenges\<close> looks the extension up in the parsed
  \<^verbatim>\<open>credentials\<close> instead. For a provider whose options carry an extension, the record
  that \<^verbatim>\<open>get_authorizations\<close> creates for \<^verbatim>\<open>foo.example.com\<close> is at
  \<^verbatim>\<open>_acme-challenge.foo.example.com.validation.example.com\<close>, the one deletion call of the
  cleanup is for the host \<^verbatim>\<open>_acme-challenge.foo.example.com\<close>, where no record was
  created, and the created record set is still there afterwards. The cleanup does not
  raise.
\<close>

theorem cleanup_dns_challenges_misses_created_record:
  "snd (autodetect_dns_providers (extension_handler\<lparr>dns_providers_for_domain := Map.empty\<rparr>)
          ''foo.example.com'') = extension_handler \<and>
   fst (get_authorizations extension_handler ultradns_create_op False (\<lambda>d. CnameException)
          (authz created_record) [''foo.example.com''] example_service) = Inr [created_record] \<and>
   rrsets after_creation (''example.com'', ''_acme-challenge.foo.example.com.validation'') =
     Some [''token-plain''] \<and>
   fst (cleanup_dns_challenges extension_handler ultradns_delete_op [created_record] after_creation) =
     Inr () \<and>
   snd (snd (cleanup_dns_challenges extension_handler ultradns_delete_op [created_record]
               after_creation)) =
     [Call (DeleteTxtRecord Ultradns
              [(''_acme-challenge.foo.example.com.validation.example.com'', ''token-plain'')]
              (Some ''2'') ''_acme-challenge.foo.example.com'' ''token-plain'')] \<and>
   rrsets (fst (snd (cleanup_dns_challenges extension_handler ultradns_delete_op [created_record]
                       after_creation)))
     (''example.com'', ''_acme-challenge.foo.example.com.validation'') = Some [''token-plain'']"
proof -
  have a: "snd (autodetect_dns_providers (extension_handler\<lparr>dns_providers_for_domain := Map.empty\<rparr>)
          ''foo.example.com'') = extension_handler"
    by (simp add: autodetect_dns_providers_def extension_handler_def provider_extension_def
          endswith_def Let_def)
  have ac: "after_creation =
      example_service\<lparr>rrsets := [(''example.com'', ''_acme-challenge.foo.example.com.validation'')
                              \<mapsto> [''token-plain'']],
                    trace := [HttpRequest ListZones, HttpRequest ListZones,
                              HttpRequest (PostRRSet (''example.com'',
                                ''_acme-challenge.foo.example.com.validation'') [''token-plain'']),
                              LogDebug ''TXT record created'']\<rparr>"
    by (simp add: after_creation_def get_authorizations_extension)
  have d: "delete_txt_record
             [(''_acme-challenge.foo.example.com.validation.example.com'', ''token-plain'')]
             (Some ''2'') ''_acme-challenge.foo.example.com'' ''token-plain'' after_creation =
      (Inr (), emit [HttpRequest ListZones, HttpRequest ListZones,
                     HttpRequest (GetRRSet (''example.com'', ''_acme-challenge.foo'')),
                     Metric ''delete_txt_record_geterror''] after_creation)"
    by (simp add: ac delete_txt_record_def get_zone_name_def get_zones_def ultradns_get_zones_def
          ultradns_get_def example_service_def emit_def endswith_def count_dot_def Let_def
          slice_to_neg_def)
  have c: "cleanup_dns_challenges extension_handler ultradns_delete_op [created_record] after_creation =
      (Inr (), emit [HttpRequest ListZones, HttpRequest ListZones,
                     HttpRequest (GetRRSet (''example.com'', ''_acme-challenge.foo'')),
                     Metric ''delete_txt_record_geterror''] after_creation,
       [Call (DeleteTxtRecord Ultradns
              [(''_acme-challenge.foo.example.com.validation.example.com'', ''token-plain'')]
              (Some ''2'') ''_acme-challenge.foo.example.com'' ''token-plain'')])"
    using d
    by (simp add: cleanup_dns_challenges_def extension_handler_def provider_extension_def
          created_record_def get_dns_provider_def strip_wildcard_def startswith_def
          maybe_add_extension_def validation_domain_name_def ultradns_delete_op_def Let_def
          challenge_plain_def)
  have r: "rrsets after_creation (''example.com'', ''_acme-challenge.foo.example.com.validation'') =
     Some [''token-plain'']"
    by (simp add: ac)
  show ?thesis
    using a r by (simp add: get_authorizations_extension c emit_def)
qed

end
